theory Spec2Isabelle
  imports Complex_Main "HOL-Library.Log_Nat"
begin

section \<open>JavaScript numbers\<close>

text \<open>
  A TypeScript \<^verbatim>\<open>number\<close> is an IEEE 754 binary64 value. The finite values are
  carried as the rationals they denote, next to the two infinities, the negative zero
  and NaN; \<open>Fin 0\<close> is the positive zero. Every arithmetic operation computes the exact
  rational result and rounds it to the nearest binary64 value, ties to even
  (\<open>round_double\<close>), so what is proved below holds of the rounded values the program
  really handles. A JavaScript number is a \<open>Fin q\<close> only for a \<open>q\<close> that rounding leaves
  alone; the theorems below hold for every \<open>q\<close>, and their concrete inputs are literals.
\<close>

datatype double = NaN | PInf | NInf | NZero | Fin rat

text \<open>Rounding a rational to the nearest integer, a tie going to the even neighbour.\<close>

definition rne :: "rat \<Rightarrow> int" where
  "rne x = (let f = \<lfloor>x\<rfloor>; r = x - of_int f in
     if r < 1 / 2 then f else if 1 / 2 < r then f + 1 else if even f then f else f + 1)"

text \<open>The binary exponent of a positive rational: \<open>2 powi ilog2 q \<le> q < 2 powi (ilog2 q + 1)\<close>.\<close>

definition ilog2 :: "rat \<Rightarrow> int" where
  "ilog2 q = (if 1 \<le> q then bitlen \<lfloor>q\<rfloor> - 1 else - bitlen (\<lceil>1 / q\<rceil> - 1))"

text \<open>
  Rounding to binary64: 53 significant bits, the exponent of the last bit between
  \<open>-1074\<close> (subnormal numbers) and \<open>971\<close>; a result of magnitude \<open>2 ^ 1024\<close> or more
  is an infinity, and a result rounded to zero keeps the sign of the exact value.
\<close>

definition round_double :: "rat \<Rightarrow> double" where
  "round_double q =
     (if q = 0 then Fin 0 else
      let e = max (ilog2 \<bar>q\<bar> - 52) (- 1074);
          m = rne (q / 2 powi e)
      in if 971 < e \<or> (e = 971 \<and> 2 ^ 53 \<le> \<bar>m\<bar>) then (if 0 < q then PInf else NInf)
         else if m = 0 then (if 0 < q then Fin 0 else NZero)
         else Fin (of_int m * 2 powi e))"

text \<open>A numeric literal of the source denotes the binary64 value nearest to it.\<close>

definition lit :: "rat \<Rightarrow> double" where
  "lit q = round_double q"

fun fval :: "double \<Rightarrow> rat" where
  "fval (Fin q) = q"
| "fval _ = 0"

fun is_inf :: "double \<Rightarrow> bool" where
  "is_inf PInf = True"
| "is_inf NInf = True"
| "is_inf _ = False"

fun is_zero :: "double \<Rightarrow> bool" where
  "is_zero NZero = True"
| "is_zero (Fin q) = (q = 0)"
| "is_zero _ = False"

text \<open>The sign bit (of a value that is not NaN).\<close>

fun negative :: "double \<Rightarrow> bool" where
  "negative NInf = True"
| "negative NZero = True"
| "negative (Fin q) = (q < 0)"
| "negative _ = False"

text \<open>\<^verbatim>\<open>x + y\<close> on numbers.\<close>

definition dadd :: "double \<Rightarrow> double \<Rightarrow> double" where
  "dadd x y =
     (if x = NaN \<or> y = NaN then NaN
      else if x = PInf then (if y = NInf then NaN else PInf)
      else if x = NInf then (if y = PInf then NaN else NInf)
      else if y = PInf then PInf
      else if y = NInf then NInf
      else if x = NZero \<and> y = NZero then NZero
      else round_double (fval x + fval y))"

text \<open>\<^verbatim>\<open>x * y\<close>.\<close>

definition dmul :: "double \<Rightarrow> double \<Rightarrow> double" where
  "dmul x y =
     (if x = NaN \<or> y = NaN then NaN
      else if (is_inf x \<and> is_zero y) \<or> (is_zero x \<and> is_inf y) then NaN
      else if is_inf x \<or> is_inf y then (if negative x \<noteq> negative y then NInf else PInf)
      else if is_zero x \<or> is_zero y then (if negative x \<noteq> negative y then NZero else Fin 0)
      else round_double (fval x * fval y))"

text \<open>\<^verbatim>\<open>x / y\<close>.\<close>

definition ddiv :: "double \<Rightarrow> double \<Rightarrow> double" where
  "ddiv x y =
     (if x = NaN \<or> y = NaN then NaN
      else if (is_inf x \<and> is_inf y) \<or> (is_zero x \<and> is_zero y) then NaN
      else if is_inf x \<or> is_zero y then (if negative x \<noteq> negative y then NInf else PInf)
      else if is_inf y \<or> is_zero x then (if negative x \<noteq> negative y then NZero else Fin 0)
      else round_double (fval x / fval y))"

text \<open>
  The comparisons \<^verbatim>\<open>x < y\<close>, \<^verbatim>\<open>x <= y\<close>, \<^verbatim>\<open>x > y\<close> and \<^verbatim>\<open>x >= y\<close>: false as soon as an
  operand is NaN, and the two zeros compare equal.
\<close>

definition dlt :: "double \<Rightarrow> double \<Rightarrow> bool" where
  "dlt x y =
     (if x = NaN \<or> y = NaN then False
      else if x = PInf \<or> y = NInf then False
      else if x = NInf \<or> y = PInf then True
      else fval x < fval y)"

definition dle :: "double \<Rightarrow> double \<Rightarrow> bool" where
  "dle x y =
     (if x = NaN \<or> y = NaN then False
      else if x = NInf \<or> y = PInf then True
      else if x = PInf \<or> y = NInf then False
      else fval x \<le> fval y)"

definition dgt :: "double \<Rightarrow> double \<Rightarrow> bool" where
  "dgt x y = dlt y x"

definition dge :: "double \<Rightarrow> double \<Rightarrow> bool" where
  "dge x y = dle y x"

text \<open>
  \<^verbatim>\<open>Math.min(x, y)\<close>: NaN if an argument is NaN, and the negative zero counts as
  smaller than the positive one.
\<close>

definition Math_min :: "double \<Rightarrow> double \<Rightarrow> double" where
  "Math_min x y =
     (if x = NaN \<or> y = NaN then NaN
      else if dlt x y then x
      else if dlt y x then y
      else if x = NZero then x else y)"

section \<open>JavaScript values and the \<^verbatim>\<open>+\<close> and \<^verbatim>\<open>||\<close> operators\<close>

text \<open>
  The accumulator \<^verbatim>\<open>score\<close> is declared by \<^verbatim>\<open>let score = 0\<close> and updated with
  \<^verbatim>\<open>+=\<close>, whose right-hand side in the second update is
  \<^verbatim>\<open>issueTypeWeights[features.issue_type] || 0.1\<close>: a property read on an object, which at
  run time yields whatever the object or its prototype holds under that name. So the
  values of the model are the undefined value, numbers, strings, and the members that
  an object literal inherits from \<^verbatim>\<open>Object.prototype\<close> (functions, and the prototype
  object itself under \<^verbatim>\<open>__proto__\<close>). A member carries the text that converting it to a
  primitive gives. A string is kept as the list of its pieces, the decimal text of a
  number being left unexpanded.
\<close>

datatype piece = Digits double | Text string

datatype jsval = Undefined | Num double | Str "piece list" | Member string

text \<open>A string is truthy unless it is empty.\<close>

fun has_chars :: "piece list \<Rightarrow> bool" where
  "has_chars [] = False"
| "has_chars (Digits d # ps) = True"
| "has_chars (Text t # ps) = (if t = [] then has_chars ps else True)"

fun truthy :: "jsval \<Rightarrow> bool" where
  "truthy Undefined = False"
| "truthy (Num d) = (d \<noteq> NaN \<and> \<not> is_zero d)"
| "truthy (Str ps) = has_chars ps"
| "truthy (Member t) = True"

text \<open>\<^verbatim>\<open>a || b\<close>.\<close>

definition js_or :: "jsval \<Rightarrow> jsval \<Rightarrow> jsval" where
  "js_or a b = (if truthy a then a else b)"

fun is_textual :: "jsval \<Rightarrow> bool" where
  "is_textual (Str ps) = True"
| "is_textual (Member t) = True"
| "is_textual _ = False"

fun to_pieces :: "jsval \<Rightarrow> piece list" where
  "to_pieces Undefined = [Text ''undefined'']"
| "to_pieces (Num d) = [Digits d]"
| "to_pieces (Str ps) = ps"
| "to_pieces (Member t) = [Text t]"

text \<open>
  Conversion to a number. The only strings this program builds are concatenations
  holding the text of an inherited member (\<open>score_after_status_bracketed\<close> below);
  that text contains an opening square bracket, which no numeric literal does, so the
  conversion of such a string is NaN.
\<close>

fun to_number :: "jsval \<Rightarrow> double" where
  "to_number (Num d) = d"
| "to_number Undefined = NaN"
| "to_number (Str ps) = NaN"
| "to_number (Member t) = NaN"

text \<open>
  \<^verbatim>\<open>a + b\<close>: both operands are converted to primitives; if one of them is then a
  string the result is the concatenation of their texts, otherwise the sum of their
  numeric values.
\<close>

definition js_plus :: "jsval \<Rightarrow> jsval \<Rightarrow> jsval" where
  "js_plus a b =
     (if is_textual a \<or> is_textual b then Str (to_pieces a @ to_pieces b)
      else Num (dadd (to_number a) (to_number b)))"

text \<open>
  The names every object literal inherits from \<^verbatim>\<open>Object.prototype\<close>, with the text of
  each member.
\<close>

definition Object_prototype :: "(string \<times> jsval) list" where
  "Object_prototype =
    [(''constructor'', Member ''function Object() { [native code] }''),
     (''hasOwnProperty'', Member ''function hasOwnProperty() { [native code] }''),
     (''isPrototypeOf'', Member ''function isPrototypeOf() { [native code] }''),
     (''propertyIsEnumerable'', Member ''function propertyIsEnumerable() { [native code] }''),
     (''toLocaleString'', Member ''function toLocaleString() { [native code] }''),
     (''toString'', Member ''function toString() { [native code] }''),
     (''valueOf'', Member ''function valueOf() { [native code] }''),
     (''__defineGetter__'', Member ''function __defineGetter__() { [native code] }''),
     (''__defineSetter__'', Member ''function __defineSetter__() { [native code] }''),
     (''__lookupGetter__'', Member ''function __lookupGetter__() { [native code] }''),
     (''__lookupSetter__'', Member ''function __lookupSetter__() { [native code] }''),
     (''__proto__'', Member ''[object Object]'')]"

text \<open>
  \<^verbatim>\<open>obj[key]\<close> on an object literal with the given own properties: the own property
  if there is one, else the inherited member, else undefined.
\<close>

definition get_prop :: "(string \<times> double) list \<Rightarrow> string \<Rightarrow> jsval" where
  "get_prop own k =
     (case map_of own k of
        Some v \<Rightarrow> Num v
      | None \<Rightarrow> (case map_of Object_prototype k of Some m \<Rightarrow> m | None \<Rightarrow> Undefined))"

section \<open>The risk model (\<^verbatim>\<open>src/lib/riskModel.ts\<close>)\<close>

record CallFeatures =
  wait_time :: double
  issue_type :: string
  charge :: double
  status :: string

definition issueTypeWeights :: "(string \<times> double) list" where
  "issueTypeWeights =
    [(''Insurance Claim Denial'', lit (4 / 10)),
     (''Bill Payment Query'', lit (1 / 10)),
     (''Coverage Verification'', lit (2 / 10)),
     (''Prior Authorization'', lit (3 / 10)),
     (''Copay Questions'', lit (1 / 10)),
     (''Billing Statement Error'', lit (35 / 100)),
     (''Insurance Network Query'', lit (25 / 100)),
     (''Prescription Coverage'', lit (2 / 10)),
     (''EOB Explanation'', lit (15 / 100)),
     (''Payment Plan Setup'', lit (1 / 10))]"

text \<open>
  The accumulator after the three unconditional updates, then after the status
  branch; \<open>predictRiskScore\<close> returns \<^verbatim>\<open>Math.min(score, 1)\<close>, which converts its
  argument to a number.
\<close>

definition score_before_status :: "CallFeatures \<Rightarrow> jsval" where
  "score_before_status features =
     (let score = Num (lit 0);
          score = js_plus score
                    (Num (dmul (Math_min (ddiv (wait_time features) (lit 600)) (lit 1)) (lit (3 / 10))));
          score = js_plus score
                    (js_or (get_prop issueTypeWeights (issue_type features)) (Num (lit (1 / 10))));
          score = js_plus score
                    (Num (dmul (Math_min (ddiv (charge features) (lit 1000)) (lit 1)) (lit (3 / 10))))
      in score)"

definition score_after_status :: "CallFeatures \<Rightarrow> jsval" where
  "score_after_status features =
     (let score = score_before_status features
      in if status features = ''Denied'' then js_plus score (Num (lit (3 / 10)))
         else if status features = ''Pending'' then js_plus score (Num (lit (1 / 10)))
         else score)"

definition predictRiskScore :: "CallFeatures \<Rightarrow> double" where
  "predictRiskScore features = Math_min (to_number (score_after_status features)) (lit 1)"

section \<open>The derived classification (\<^verbatim>\<open>generateMockCall\<close> in \<^verbatim>\<open>Dashboard.tsx\<close>)\<close>

text \<open>
  \<^verbatim>\<open>probability > 0.7 ? "Priority Routing" : probability > 0.4 ? "Offer Callback" : "Continue Queue"\<close>
  and the same cascade for the priority.
\<close>

definition predicted_action :: "double \<Rightarrow> string" where
  "predicted_action probability =
     (if dgt probability (lit (7 / 10)) then ''Priority Routing''
      else if dgt probability (lit (4 / 10)) then ''Offer Callback''
      else ''Continue Queue'')"

definition priority :: "double \<Rightarrow> string" where
  "priority probability =
     (if dgt probability (lit (7 / 10)) then ''High''
      else if dgt probability (lit (4 / 10)) then ''Medium''
      else ''Low'')"

section \<open>The scoring formula as the specification writes it\<close>

text \<open>
  The specification gives the score as
  \<open>min(min(wait_time / 600, 1) * 0.3 + w + min(charge / 1000, 1) * 0.3 + s, 1)\<close>, where the
  issue component \<open>w\<close> is the table weight of a listed issue type and \<open>0.1\<close> for every
  other string, and the status component \<open>s\<close> is \<open>0.3\<close> for \<open>Denied\<close>, \<open>0.1\<close> for
  \<open>Pending\<close> and \<open>0.0\<close> otherwise. \<open>formula_with_weight\<close> is that formula for a given
  issue component, in the same binary64 arithmetic, summed from left to right.
\<close>

definition spec_weight :: "string \<Rightarrow> double" where
  "spec_weight k = (case map_of issueTypeWeights k of Some v \<Rightarrow> v | None \<Rightarrow> lit (1 / 10))"

definition spec_status :: "string \<Rightarrow> double" where
  "spec_status s =
     (if s = ''Denied'' then lit (3 / 10) else if s = ''Pending'' then lit (1 / 10) else lit 0)"

definition formula_with_weight :: "double \<Rightarrow> CallFeatures \<Rightarrow> double" where
  "formula_with_weight w features =
     Math_min
       (dadd (dadd (dadd (dmul (Math_min (ddiv (wait_time features) (lit 600)) (lit 1)) (lit (3 / 10))) w)
                   (dmul (Math_min (ddiv (charge features) (lit 1000)) (lit 1)) (lit (3 / 10))))
             (spec_status (status features)))
       (lit 1)"

definition reference_score :: "CallFeatures \<Rightarrow> double" where
  "reference_score features = formula_with_weight (spec_weight (issue_type features)) features"

section \<open>Notions used in the proofs\<close>

text \<open>
  The exponent of the last bit that \<open>round_double\<close> keeps, the integer it rounds to, and
  the rational that results, before overflow and the sign of a zero are looked at.
\<close>

definition exponent :: "rat \<Rightarrow> int" where
  "exponent q = max (ilog2 \<bar>q\<bar> - 52) (- 1074)"

definition mantissa :: "rat \<Rightarrow> int" where
  "mantissa q = rne (q / 2 powi exponent q)"

definition rounded :: "rat \<Rightarrow> rat" where
  "rounded q = of_int (rne (q / 2 powi exponent q)) * 2 powi exponent q"

text \<open>The least magnitude that rounds to an infinity, \<open>2 ^ 1024\<close>.\<close>

definition huge :: rat where
  "huge = 2 ^ 53 * 2 powi 971"

text \<open>Every finite binary64 value is a multiple of \<open>2 powi (- 1074)\<close>.\<close>

definition on_grid :: "rat \<Rightarrow> bool" where
  "on_grid r \<longleftrightarrow> (\<exists>n::int. r = of_int n * 2 powi (- 1074))"

text \<open>Values that rounding leaves alone: every result of an operation is one.\<close>

definition representable :: "double \<Rightarrow> bool" where
  "representable x \<longleftrightarrow> (case x of Fin r \<Rightarrow> round_double r = Fin r | _ \<Rightarrow> True)"

fun is_fin :: "double \<Rightarrow> bool" where
  "is_fin (Fin q) = True"
| "is_fin NZero = True"
| "is_fin _ = False"

text \<open>Two results are in order, or both are NaN.\<close>

definition ordered :: "double \<Rightarrow> double \<Rightarrow> bool" where
  "ordered x y \<longleftrightarrow> dle x y \<or> (x = NaN \<and> y = NaN)"

text \<open>A value is NaN or at most a finite bound.\<close>

definition bounded :: "double \<Rightarrow> rat \<Rightarrow> bool" where
  "bounded x a \<longleftrightarrow> x = NaN \<or> dle x (Fin a)"

text \<open>
  The parts of \<open>predictRiskScore\<close>: the wait-time and charge terms
  \<^verbatim>\<open>Math.min(x / k, 1) * 0.3\<close>, the issue term
  \<^verbatim>\<open>issueTypeWeights[features.issue_type] || 0.1\<close>, the accumulator after the first and
  the second update when the issue term is the number \<open>w\<close>, the status branch on a
  numeric accumulator, and the score on that numeric path.
\<close>

definition component :: "rat \<Rightarrow> double \<Rightarrow> double" where
  "component k x = dmul (Math_min (ddiv x (Fin k)) (Fin 1)) (lit (3 / 10))"

definition issue_term :: "string \<Rightarrow> jsval" where
  "issue_term k = js_or (get_prop issueTypeWeights k) (Num (lit (1 / 10)))"

definition first_sum :: "double \<Rightarrow> double" where
  "first_sum x = dadd (Fin 0) (component 600 x)"

definition second_sum :: "rat \<Rightarrow> double \<Rightarrow> double" where
  "second_sum w x = dadd (first_sum x) (Fin w)"

definition status_sum :: "string \<Rightarrow> double \<Rightarrow> double" where
  "status_sum s b =
     (if s = ''Denied'' then dadd b (lit (3 / 10))
      else if s = ''Pending'' then dadd b (lit (1 / 10)) else b)"

definition numeric_score :: "rat \<Rightarrow> double \<Rightarrow> double \<Rightarrow> string \<Rightarrow> double" where
  "numeric_score w x c s =
     Math_min (status_sum s (dadd (second_sum w x) (component 1000 c))) (Fin 1)"

text \<open>
  A value whose text, if it is a string or a member, holds an opening square bracket.
\<close>

fun bracketed :: "jsval \<Rightarrow> bool" where
  "bracketed (Str ps) = (\<exists>t. Text t \<in> set ps \<and> CHR ''['' \<in> set t)"
| "bracketed (Member t) = (CHR ''['' \<in> set t)"
| "bracketed _ = True"

text \<open>The issue types that name a member inherited from \<^verbatim>\<open>Object.prototype\<close>.\<close>

definition inherited_name :: "string \<Rightarrow> bool" where
  "inherited_name k \<longleftrightarrow> k \<in> set (map fst Object_prototype)"

section \<open>Rounding to the nearest integer, and binary exponents\<close>

lemma rne_of_int: "rne (of_int n) = n"
  by (simp add: rne_def)

lemma rne_floor_cases: "rne x = \<lfloor>x\<rfloor> \<or> rne x = \<lfloor>x\<rfloor> + 1"
  by (simp add: rne_def Let_def)

lemma rne_mono:
  assumes "x \<le> y"
  shows "rne x \<le> rne y"
proof (cases "\<lfloor>x\<rfloor> = \<lfloor>y\<rfloor>")
  case True
  with assms show ?thesis
    by (auto simp: rne_def Let_def)
next
  case False
  with assms have "\<lfloor>x\<rfloor> + 1 \<le> \<lfloor>y\<rfloor>"
    using floor_mono [of x y] by linarith
  moreover have "rne x \<le> \<lfloor>x\<rfloor> + 1" "\<lfloor>y\<rfloor> \<le> rne y"
    using rne_floor_cases [of x] rne_floor_cases [of y] by auto
  ultimately show ?thesis by linarith
qed

lemma rne_minus: "rne (- x) = - rne x"
proof (cases "x = of_int \<lfloor>x\<rfloor>")
  case True
  then obtain n where "x = of_int n" ..
  then have "- x = of_int (- n)" by simp
  then show ?thesis
    using rne_of_int [of "- n"] rne_of_int [of n] \<open>x = of_int n\<close> by metis
next
  case False
  then have c: "\<lceil>x\<rceil> = \<lfloor>x\<rfloor> + 1"
    by (simp add: ceiling_altdef)
  have f: "\<lfloor>- x\<rfloor> = - \<lfloor>x\<rfloor> - 1"
    using c by (simp add: ceiling_def)
  show ?thesis
    unfolding rne_def Let_def f
    by (auto simp: algebra_simps)
qed

lemma rne_le_int: "x \<le> of_int n \<Longrightarrow> rne x \<le> n"
  using rne_mono [of x "of_int n"] by (simp add: rne_of_int)

lemma rne_ge_int: "of_int n \<le> x \<Longrightarrow> n \<le> rne x"
  using rne_mono [of "of_int n" x] by (simp add: rne_of_int)

lemma bitlen_ge1: "1 \<le> n \<Longrightarrow> 1 \<le> bitlen n"
  using bitlen_eq_zero_iff [of n] bitlen_nonneg [of n] by linarith

lemma ilog2_bounds:
  assumes "0 < q"
  shows "2 powi (ilog2 q) \<le> q" and "q < 2 powi (ilog2 q + 1)"
proof -
  show "2 powi (ilog2 q) \<le> q"
  proof (cases "1 \<le> q")
    case True
    define n where "n = \<lfloor>q\<rfloor>"
    have n: "1 \<le> n" using True by (simp add: n_def)
    then have b: "1 \<le> bitlen n" by (rule bitlen_ge1)
    have "(2::int) ^ nat (bitlen n - 1) \<le> n" using bitlen_bounds[of n] n by simp
    then have "(of_int ((2::int) ^ nat (bitlen n - 1)) :: rat) \<le> of_int n"
      by (simp only: of_int_le_iff)
    also have "\<dots> \<le> q" by (simp add: n_def)
    finally show ?thesis using True b by (simp add: ilog2_def n_def power_int_def)
  next
    case False
    define n where "n = \<lceil>1 / q\<rceil> - 1"
    have x: "1 < 1 / q" using False assms by simp
    have n: "1 \<le> n" using x unfolding n_def by linarith
    have "1 / q \<le> of_int (n + 1)" unfolding n_def by simp
    also have "n + 1 \<le> 2 ^ nat (bitlen n)" using bitlen_bounds[of n] n by simp
    then have "(of_int (n + 1) :: rat) \<le> of_int (2 ^ nat (bitlen n))"
      by (simp only: of_int_le_iff)
    finally have "1 / q \<le> 2 ^ nat (bitlen n)" by simp
    then have "1 / 2 ^ nat (bitlen n) \<le> q"
      using assms by (simp add: field_simps)
    then show ?thesis using False bitlen_ge1[OF n]
      by (simp add: ilog2_def n_def power_int_def field_simps)
  qed
  show "q < 2 powi (ilog2 q + 1)"
  proof (cases "1 \<le> q")
    case True
    define n where "n = \<lfloor>q\<rfloor>"
    have n: "1 \<le> n" using True by (simp add: n_def)
    have "q < of_int (n + 1)" unfolding n_def by linarith
    also have "n + 1 \<le> 2 ^ nat (bitlen n)" using bitlen_bounds[of n] n by simp
    then have "(of_int (n + 1) :: rat) \<le> of_int (2 ^ nat (bitlen n))"
      by (simp only: of_int_le_iff)
    finally have "q < 2 ^ nat (bitlen n)" by simp
    then show ?thesis using True bitlen_nonneg[of n]
      by (simp add: ilog2_def n_def power_int_def)
  next
    case False
    define n where "n = \<lceil>1 / q\<rceil> - 1"
    have x: "1 < 1 / q" using False assms by simp
    have n: "1 \<le> n" using x unfolding n_def by linarith
    then have b: "1 \<le> bitlen n" by (rule bitlen_ge1)
    have "(2::int) ^ nat (bitlen n - 1) \<le> n" using bitlen_bounds[of n] n by simp
    then have "(of_int ((2::int) ^ nat (bitlen n - 1)) :: rat) \<le> of_int n"
      by (simp only: of_int_le_iff)
    also have "(of_int n :: rat) < 1 / q" unfolding n_def by linarith
    finally have "2 ^ nat (bitlen n - 1) < 1 / q" by simp
    then have "q < 1 / 2 ^ nat (bitlen n - 1)"
      using assms by (simp add: field_simps)
    moreover have "- bitlen n + 1 = - (bitlen n - 1)" by simp
    ultimately show ?thesis using False b
      by (simp add: ilog2_def n_def power_int_def power_one_over)
  qed
qed

lemma p2_pos [simp]: "0 < (2::rat) powi k"
  by simp

lemma p2_add: "(2::rat) powi (a + b) = 2 powi a * 2 powi b"
  by (simp add: power_int_add)

lemma p2_diff: "(2::rat) powi (a - b) = 2 powi a / 2 powi b"
  by (simp add: power_int_diff)

lemma p2_mono: "a \<le> b \<Longrightarrow> (2::rat) powi a \<le> 2 powi b"
  by (rule power_int_increasing) simp_all

lemma p2_strict: "a < b \<Longrightarrow> (2::rat) powi a < 2 powi b"
  by (rule power_int_strict_increasing) simp_all

lemma p2_less_iff: "(2::rat) powi a < 2 powi b \<longleftrightarrow> a < b"
  using p2_strict [of a b] p2_mono [of b a] by (auto simp: not_less [symmetric])

lemma p2_le_iff: "(2::rat) powi a \<le> 2 powi b \<longleftrightarrow> a \<le> b"
  using p2_strict [of b a] p2_mono [of a b] by (auto simp: not_le [symmetric])

lemma p2_nat: "0 \<le> k \<Longrightarrow> (2::rat) powi k = of_int (2 ^ nat k)"
  by (simp add: power_int_def)

lemma ilog2_unique:
  assumes "2 powi k \<le> q" "q < 2 powi (k + 1)"
  shows "ilog2 q = k"
proof -
  have q: "0 < q" using assms(1) p2_pos [of k] by linarith
  from ilog2_bounds [OF q] assms
  have "(2::rat) powi (ilog2 q) < 2 powi (k + 1)" "(2::rat) powi k < 2 powi (ilog2 q + 1)"
    by linarith+
  then show ?thesis by (simp add: p2_less_iff)
qed

lemma ilog2_mono:
  assumes "0 < q" "q \<le> q'"
  shows "ilog2 q \<le> ilog2 q'"
proof -
  have q': "0 < q'" using assms by linarith
  from ilog2_bounds [OF assms(1)] ilog2_bounds [OF q'] assms(2)
  have "(2::rat) powi (ilog2 q) < 2 powi (ilog2 q' + 1)" by linarith
  then show ?thesis by (simp add: p2_less_iff)
qed

lemma exponent_minus [simp]: "exponent (- q) = exponent q"
  by (simp add: exponent_def)

lemma exponent_ge: "- 1074 \<le> exponent q"
  by (simp add: exponent_def)

lemma exponent_mono: "0 < q \<Longrightarrow> q \<le> q' \<Longrightarrow> exponent q \<le> exponent q'"
  using ilog2_mono [of "\<bar>q\<bar>" "\<bar>q'\<bar>"] by (simp add: exponent_def)

lemma rounded_minus: "rounded (- q) = - rounded q"
  by (simp add: rounded_def rne_minus)

lemma rounded_0 [simp]: "rounded 0 = 0"
  using rne_of_int [of 0] by (simp add: rounded_def)

lemma scaled_lt:
  assumes "0 < q"
  shows "q / 2 powi exponent q < 2 ^ 53"
proof -
  have "q < 2 powi (ilog2 q + 1)" using ilog2_bounds [OF assms] by simp
  also have "\<dots> \<le> 2 powi (exponent q + 53)"
    using assms by (intro p2_mono) (simp add: exponent_def)
  also have "\<dots> = 2 powi exponent q * 2 ^ 53" by (simp add: p2_add)
  finally show ?thesis by (simp add: field_simps)
qed

lemma scaled_ge:
  assumes "0 < q" "- 1074 < exponent q"
  shows "2 ^ 52 \<le> q / 2 powi exponent q"
proof -
  have e: "ilog2 q = exponent q + 52" using assms by (simp add: exponent_def max_def split: if_splits)
  have "(2::rat) powi exponent q * 2 ^ 52 = 2 powi (ilog2 q)" by (simp add: e p2_add)
  also have "\<dots> \<le> q" using ilog2_bounds [OF assms(1)] by simp
  finally show ?thesis by (simp add: field_simps)
qed

lemma rounded_nonneg: "0 \<le> q \<Longrightarrow> 0 \<le> rounded q"
  using rne_ge_int [of 0 "q / 2 powi exponent q"] by (simp add: rounded_def)

lemma rounded_mono_pos:
  assumes "0 < q" "q \<le> q'"
  shows "rounded q \<le> rounded q'"
proof (cases "exponent q = exponent q'")
  case True
  have "q / 2 powi exponent q' \<le> q' / 2 powi exponent q'"
    using assms by (simp add: divide_right_mono)
  then have "rne (q / 2 powi exponent q') \<le> rne (q' / 2 powi exponent q')"
    by (rule rne_mono)
  then show ?thesis
    by (simp add: rounded_def True)
next
  case False
  have q': "0 < q'" using assms by linarith
  from False exponent_mono [OF assms] have lt: "exponent q < exponent q'" by simp
  then have e': "- 1074 < exponent q'" using exponent_ge [of q] by linarith
  then have E': "ilog2 q' = exponent q' + 52"
    using q' by (simp add: exponent_def max_def split: if_splits)
  have "ilog2 q - 52 \<le> exponent q" using assms by (simp add: exponent_def)
  then have "ilog2 q + 1 \<le> ilog2 q'" using lt E' by linarith
  define k where "k = ilog2 q'"
  have kq: "q \<le> 2 powi k"
    using ilog2_bounds(2) [OF assms(1)] p2_mono [OF \<open>ilog2 q + 1 \<le> ilog2 q'\<close>]
    by (simp add: k_def)
  have d: "0 \<le> k - exponent q" "0 \<le> k - exponent q'" using E' lt by (simp_all add: k_def)
  have "q / 2 powi exponent q \<le> 2 powi (k - exponent q)"
    using kq by (simp add: p2_diff divide_right_mono)
  also have "\<dots> = of_int (2 ^ nat (k - exponent q))" using d by (simp add: p2_nat)
  finally have "rne (q / 2 powi exponent q) \<le> 2 ^ nat (k - exponent q)" by (rule rne_le_int)
  then have "(of_int (rne (q / 2 powi exponent q)) :: rat) \<le> of_int (2 ^ nat (k - exponent q))"
    by (simp only: of_int_le_iff)
  then have "rounded q \<le> 2 powi (k - exponent q) * 2 powi exponent q"
    using d by (simp add: rounded_def p2_nat)
  then have a: "rounded q \<le> 2 powi k" by (simp add: p2_diff)
  have "(of_int (2 ^ nat (k - exponent q')) :: rat) = 2 powi (k - exponent q')"
    using d by (simp add: p2_nat)
  also have "\<dots> \<le> q' / 2 powi exponent q'"
    using ilog2_bounds(1) [OF q'] by (simp add: p2_diff divide_right_mono k_def)
  finally have "2 ^ nat (k - exponent q') \<le> rne (q' / 2 powi exponent q')" by (rule rne_ge_int)
  then have "(of_int (2 ^ nat (k - exponent q')) :: rat) \<le> of_int (rne (q' / 2 powi exponent q'))"
    by (simp only: of_int_le_iff)
  then have "2 powi (k - exponent q') * 2 powi exponent q' \<le> rounded q'"
    using d by (simp add: rounded_def p2_nat)
  then have b: "2 powi k \<le> rounded q'" by (simp add: p2_diff)
  from a b show ?thesis by linarith
qed

lemma rounded_mono:
  assumes "q \<le> q'"
  shows "rounded q \<le> rounded q'"
proof -
  consider "0 < q" | "q \<le> 0" "0 \<le> q'" | "q' < 0" by linarith
  then show ?thesis
  proof cases
    case 1
    then show ?thesis using assms by (rule rounded_mono_pos)
  next
    case 2
    have "rounded q \<le> 0" using rounded_nonneg [of "- q"] 2 by (simp add: rounded_minus)
    moreover have "0 \<le> rounded q'" using rounded_nonneg 2 by simp
    ultimately show ?thesis by linarith
  next
    case 3
    then have "rounded (- q') \<le> rounded (- q)" using assms by (intro rounded_mono_pos) simp_all
    then show ?thesis by (simp add: rounded_minus)
  qed
qed

section \<open>Rounding to binary64\<close>

lemma huge_pos: "0 < huge"
  by (simp add: huge_def)

lemma abs_rne: "\<bar>rne x\<bar> = rne \<bar>x\<bar>"
proof (cases "0 \<le> x")
  case True
  then have "0 \<le> rne x" using rne_ge_int [of 0 x] by simp
  with True show ?thesis by simp
next
  case False
  then have "0 \<le> rne (- x)" using rne_ge_int [of 0 "- x"] by simp
  with False show ?thesis by (simp add: rne_minus)
qed

lemma rounded_mantissa: "rounded q = of_int (mantissa q) * 2 powi exponent q"
  by (simp add: rounded_def mantissa_def)

lemma abs_mantissa: "\<bar>mantissa q\<bar> = rne (\<bar>q\<bar> / 2 powi exponent q)"
  by (simp add: mantissa_def abs_rne)

lemma mantissa_le:
  assumes "q \<noteq> 0"
  shows "\<bar>mantissa q\<bar> \<le> 2 ^ 53"
proof -
  have "\<bar>q\<bar> / 2 powi exponent \<bar>q\<bar> < 2 ^ 53" using assms by (intro scaled_lt) simp
  then have "\<bar>q\<bar> / 2 powi exponent q \<le> of_int (2 ^ 53)" by (simp add: exponent_def)
  then show ?thesis unfolding abs_mantissa by (rule rne_le_int)
qed

lemma mantissa_ge:
  assumes "q \<noteq> 0" "- 1074 < exponent q"
  shows "2 ^ 52 \<le> \<bar>mantissa q\<bar>"
proof -
  have "2 ^ 52 \<le> \<bar>q\<bar> / 2 powi exponent \<bar>q\<bar>" using assms by (intro scaled_ge) (simp_all add: exponent_def)
  then have "of_int (2 ^ 52) \<le> \<bar>q\<bar> / 2 powi exponent q" by (simp add: exponent_def)
  then show ?thesis unfolding abs_mantissa by (rule rne_ge_int)
qed

lemma abs_rounded: "\<bar>rounded q\<bar> = of_int \<bar>mantissa q\<bar> * 2 powi exponent q"
  by (simp add: rounded_mantissa abs_mult)

lemma p2_double_le: "k < e \<Longrightarrow> 2 * (2::rat) powi k \<le> 2 powi e"
  using p2_mono [of "k + 1" e] by (simp add: p2_add)

lemma overflow_iff:
  assumes "q \<noteq> 0"
  shows "971 < exponent q \<or> (exponent q = 971 \<and> 2 ^ 53 \<le> \<bar>mantissa q\<bar>) \<longleftrightarrow> huge \<le> \<bar>rounded q\<bar>"
proof -
  define e where "e = exponent q"
  define m where "m = \<bar>mantissa q\<bar>"
  define H where "H = (2::rat) powi 971"
  define P where "P = (2::rat) powi e"
  have H: "0 < H" unfolding H_def by (rule p2_pos)
  have P: "0 < P" unfolding P_def by (rule p2_pos)
  have huge: "huge = 2 ^ 53 * H" unfolding huge_def H_def ..
  have m53: "(of_int m :: rat) \<le> 2 ^ 53"
    using mantissa_le [OF assms] of_int_le_iff [of m "2 ^ 53", where ?'a = rat] by (simp add: m_def)
  have m0: "(0::rat) \<le> of_int m" by (simp add: m_def)
  have r: "\<bar>rounded q\<bar> = of_int m * P" by (simp add: abs_rounded m_def e_def P_def)
  consider "971 < e" | "e = 971" | "e < 971" by linarith
  then have "971 < e \<or> (e = 971 \<and> 2 ^ 53 \<le> m) \<longleftrightarrow> huge \<le> of_int m * P"
  proof cases
    case 1
    then have "2 ^ 52 \<le> m" using mantissa_ge [OF assms] by (simp add: m_def e_def)
    then have "(2 ^ 52 :: rat) \<le> of_int m"
      using of_int_le_iff [of "2 ^ 52" m, where ?'a = rat] by simp
    then have a: "2 ^ 52 * P \<le> of_int m * P"
      using P by (simp add: mult_right_mono)
    have "2 * H \<le> P" unfolding H_def P_def using 1 by (rule p2_double_le)
    then have "2 ^ 52 * (2 * H) \<le> 2 ^ 52 * P" by (intro mult_left_mono) simp_all
    with a have "huge \<le> of_int m * P" unfolding huge by simp
    then show ?thesis using 1 by simp
  next
    case 2
    then have PH: "P = H" by (simp add: P_def H_def)
    have "2 ^ 53 * H \<le> of_int m * H \<longleftrightarrow> (2 ^ 53 :: rat) \<le> of_int m"
      using H by (simp add: mult_le_cancel_right)
    also have "\<dots> \<longleftrightarrow> 2 ^ 53 \<le> m"
      using of_int_le_iff [of "2 ^ 53" m, where ?'a = rat] by simp
    finally show ?thesis using 2 by (simp add: huge PH)
  next
    case 3
    have "of_int m * P \<le> 2 ^ 53 * P"
      using m53 P by (simp add: mult_right_mono)
    moreover have "P < H" unfolding H_def P_def using 3 by (rule p2_strict)
    then have "2 ^ 53 * P < 2 ^ 53 * H" by simp
    ultimately have "of_int m * P < huge" unfolding huge by simp
    then show ?thesis using 3 by simp
  qed
  then show ?thesis by (simp add: r m_def e_def)
qed

lemma rounded_nonpos: "q \<le> 0 \<Longrightarrow> rounded q \<le> 0"
  using rounded_nonneg [of "- q"] by (simp add: rounded_minus)

lemma rounded_zero_iff: "rounded q = 0 \<longleftrightarrow> mantissa q = 0"
  by (simp add: rounded_mantissa)

text \<open>Rounding to binary64 in terms of the rounded rational.\<close>

lemma round_double_rounded:
  "round_double q =
     (if huge \<le> rounded q then PInf
      else if rounded q \<le> - huge then NInf
      else if rounded q = 0 then (if q < 0 then NZero else Fin 0)
      else Fin (rounded q))"
proof (cases "q = 0")
  case True
  then show ?thesis using huge_pos by (simp add: round_double_def)
next
  case False
  note ov = overflow_iff [OF False]
  show ?thesis
  proof (cases "0 < q")
    case True
    then have "0 \<le> rounded q" using rounded_nonneg by simp
    then have "\<bar>rounded q\<bar> = rounded q" by simp
    with ov True \<open>0 \<le> rounded q\<close> huge_pos show ?thesis
      unfolding round_double_def Let_def mantissa_def [symmetric] exponent_def [symmetric]
        rounded_mantissa [symmetric] rounded_zero_iff [symmetric]
      by auto
  next
    case no: False
    with False have neg: "q < 0" by simp
    then have "rounded q \<le> 0" using rounded_nonpos by simp
    then have "\<bar>rounded q\<bar> = - rounded q" by simp
    with ov neg \<open>rounded q \<le> 0\<close> huge_pos show ?thesis
      unfolding round_double_def Let_def mantissa_def [symmetric] exponent_def [symmetric]
        rounded_mantissa [symmetric] rounded_zero_iff [symmetric]
      by auto
  qed
qed

lemma round_double_not_NaN [simp]: "round_double q \<noteq> NaN"
  by (simp add: round_double_rounded)

lemma rounded_of_scaled_int:
  assumes "r = of_int k * 2 powi exponent r"
  shows "rounded r = r"
proof -
  have "r / 2 powi exponent r = of_int k" using assms
    by (metis nonzero_mult_div_cancel_right p2_pos less_irrefl)
  then show ?thesis using assms by (simp add: rounded_def rne_of_int)
qed

lemma rounded_idem_pos:
  assumes "0 < q"
  shows "rounded (rounded q) = rounded q"
proof (cases "mantissa q = 0")
  case True
  then have "rounded q = 0" by (simp add: rounded_zero_iff)
  then show ?thesis by simp
next
  case False
  define e where "e = exponent q"
  define m where "m = mantissa q"
  define r where "r = rounded q"
  have r: "r = of_int m * 2 powi e" by (simp add: r_def rounded_mantissa m_def e_def)
  have "0 \<le> m" unfolding m_def mantissa_def using assms by (intro rne_ge_int) simp
  with False have m1: "1 \<le> m" by (simp add: m_def)
  have m53: "m \<le> 2 ^ 53" using mantissa_le [of q] assms by (simp add: m_def)
  have e: "- 1074 \<le> e" by (simp add: e_def exponent_ge)
  have rpos: "0 < r" using m1 by (simp add: r)
  have "(1::rat) \<le> of_int m" using m1 by simp
  show ?thesis
  proof (cases "m = 2 ^ 53")
    case True
    then have r2: "r = 2 powi (e + 53)" by (simp add: r p2_add)
    have "ilog2 r = e + 53"
      by (rule ilog2_unique) (simp_all add: r2 p2_less_iff)
    then have "exponent r = e + 1" using rpos e by (simp add: exponent_def)
    moreover have "r = of_int (2 ^ 52) * 2 powi (e + 1)"
      by (simp add: r2 p2_add)
    ultimately have "rounded r = r" using rounded_of_scaled_int [of r "2 ^ 52"] by simp
    then show ?thesis by (simp add: r_def)
  next
    case F: False
    with m53 have "m + 1 \<le> 2 ^ 53" by simp
    then have "(of_int (m + 1) :: rat) \<le> of_int (2 ^ 53)" by (simp only: of_int_le_iff)
    then have "(of_int m :: rat) < 2 ^ 53" by simp
    then have "r < 2 ^ 53 * 2 powi e" by (simp add: r)
    also have "\<dots> = 2 powi (e + 53)" by (simp add: p2_add)
    finally have "r < 2 powi (e + 53)" .
    with ilog2_bounds(1) [OF rpos] have "(2::rat) powi (ilog2 r) < 2 powi (e + 53)" by linarith
    then have "ilog2 r < e + 53" by (simp add: p2_less_iff)
    then have le: "exponent r \<le> e" using rpos e by (simp add: exponent_def)
    define d where "d = nat (e - exponent r)"
    have "(2::rat) powi e = 2 powi (e - exponent r) * 2 powi exponent r"
      by (simp add: p2_diff)
    also have "(2::rat) powi (e - exponent r) = of_int (2 ^ d)"
      using le by (simp add: p2_nat d_def)
    finally have "r = of_int (m * 2 ^ d) * 2 powi exponent r" by (simp add: r)
    then have "rounded r = r" by (rule rounded_of_scaled_int)
    then show ?thesis by (simp add: r_def)
  qed
qed

lemma rounded_idem: "rounded (rounded q) = rounded q"
proof -
  consider "0 < q" | "q = 0" | "q < 0" by linarith
  then show ?thesis
  proof cases
    case 1
    then show ?thesis by (rule rounded_idem_pos)
  next
    case 2
    then show ?thesis by simp
  next
    case 3
    then have "rounded (rounded (- q)) = rounded (- q)" by (intro rounded_idem_pos) simp
    then show ?thesis by (simp add: rounded_minus)
  qed
qed

lemma round_double_idem:
  assumes "round_double q = Fin r"
  shows "round_double r = Fin r"
proof (cases "r = 0")
  case True
  then show ?thesis by (simp add: round_double_def)
next
  case False
  with assms have r: "r = rounded q" and b: "\<not> huge \<le> rounded q" "\<not> rounded q \<le> - huge"
    by (auto simp: round_double_rounded split: if_splits)
  have "rounded r = r" by (simp add: r rounded_idem)
  with False b r show ?thesis by (simp add: round_double_rounded)
qed

lemma on_grid_rounded: "on_grid (rounded q)"
proof -
  define d where "d = nat (exponent q + 1074)"
  have "(2::rat) powi exponent q = 2 powi (exponent q + 1074) * 2 powi (- 1074)"
    using p2_add [of "exponent q + 1074" "- 1074"] by simp
  also have "(2::rat) powi (exponent q + 1074) = of_int (2 ^ d)"
    using exponent_ge [of q] by (simp add: p2_nat d_def)
  finally have "rounded q = of_int (mantissa q * 2 ^ d) * 2 powi (- 1074)"
    by (simp add: rounded_mantissa)
  then show ?thesis unfolding on_grid_def ..
qed

lemma on_grid_0 [simp]: "on_grid 0"
  unfolding on_grid_def by (rule exI [of _ 0]) simp

lemma on_grid_round: "round_double q = Fin r \<Longrightarrow> on_grid r"
  using on_grid_rounded [of q] by (auto simp: round_double_rounded split: if_splits)

lemma on_grid_add: "on_grid a \<Longrightarrow> on_grid b \<Longrightarrow> on_grid (a + b)"
  unfolding on_grid_def
proof (elim exE)
  fix n k :: int
  assume "a = of_int n * 2 powi (- 1074)" "b = of_int k * 2 powi (- 1074)"
  then have "a + b = of_int (n + k) * 2 powi (- 1074)" by (simp add: algebra_simps)
  then show "\<exists>n::int. a + b = of_int n * 2 powi (- 1074)" ..
qed

lemma rounded_grid_zero:
  assumes "on_grid q" "rounded q = 0"
  shows "q = 0"
proof (rule ccontr)
  assume q: "q \<noteq> 0"
  from assms(2) have m: "mantissa q = 0" by (simp add: rounded_zero_iff)
  have e: "exponent q = - 1074"
  proof (rule ccontr)
    assume "exponent q \<noteq> - 1074"
    then have "- 1074 < exponent q" using exponent_ge [of q] by linarith
    from mantissa_ge [OF q this] m show False by simp
  qed
  from assms(1) obtain n :: int where n: "q = of_int n * 2 powi (- 1074)"
    unfolding on_grid_def ..
  have "q = of_int n * 2 powi exponent q" unfolding e by (rule n)
  then have "rounded q = q" by (rule rounded_of_scaled_int)
  with assms(2) q show False by simp
qed

lemma round_double_grid_not_NZero: "on_grid q \<Longrightarrow> round_double q \<noteq> NZero"
  using rounded_grid_zero [of q] by (auto simp: round_double_rounded)

section \<open>Order and the arithmetic operations\<close>

lemma round_double_0 [simp]: "round_double 0 = Fin 0"
  by (simp add: round_double_def)

lemma round_double_mono:
  assumes "q \<le> q'"
  shows "dle (round_double q) (round_double q')"
  using rounded_mono [OF assms] assms huge_pos
  by (auto simp: round_double_rounded dle_def)

lemma dle_NZero_left [simp]: "dle NZero z = dle (Fin 0) z"
  by (cases z) (simp_all add: dle_def)

lemma dle_NZero_right [simp]: "dle z NZero = dle z (Fin 0)"
  by (cases z) (simp_all add: dle_def)

lemma dle_Fin_Fin [simp]: "dle (Fin a) (Fin b) \<longleftrightarrow> a \<le> b"
  by (simp add: dle_def)

lemma dle_NaN [simp]: "\<not> dle NaN z" "\<not> dle z NaN"
  by (simp_all add: dle_def)

lemma dle_PInf [simp]: "dle z PInf \<longleftrightarrow> z \<noteq> NaN" "dle PInf z \<longleftrightarrow> z = PInf"
  by (cases z; simp add: dle_def)+

lemma dle_NInf [simp]: "dle NInf z \<longleftrightarrow> z \<noteq> NaN" "dle z NInf \<longleftrightarrow> z = NInf"
  by (cases z; simp add: dle_def)+

lemma dle_trans: "dle x y \<Longrightarrow> dle y z \<Longrightarrow> dle x z"
  by (cases x; cases y; cases z) simp_all

lemma round_le_zero: "q \<le> 0 \<Longrightarrow> dle (round_double q) (Fin 0)"
  using round_double_mono [of q 0] by simp

lemma round_ge_zero: "0 \<le> q \<Longrightarrow> dle (Fin 0) (round_double q)"
  using round_double_mono [of 0 q] by simp

lemma ddiv_pos:
  assumes "0 < k"
  shows "ddiv x (Fin k) =
    (case x of NaN \<Rightarrow> NaN | PInf \<Rightarrow> PInf | NInf \<Rightarrow> NInf | NZero \<Rightarrow> NZero
     | Fin q \<Rightarrow> round_double (q / k))"
  using assms by (cases x) (auto simp: ddiv_def)

lemma dmul_pos:
  assumes "0 < c"
  shows "dmul x (Fin c) =
    (case x of NaN \<Rightarrow> NaN | PInf \<Rightarrow> PInf | NInf \<Rightarrow> NInf | NZero \<Rightarrow> NZero
     | Fin q \<Rightarrow> round_double (q * c))"
  using assms by (cases x) (auto simp: dmul_def)

lemma ddiv_ordered:
  assumes "0 < k" "ordered x y"
  shows "ordered (ddiv x (Fin k)) (ddiv y (Fin k))"
proof -
  have m: "a \<le> b \<Longrightarrow> dle (round_double (a / k)) (round_double (b / k))" for a b
    using assms(1) by (intro round_double_mono) (simp add: divide_right_mono)
  have z: "0 \<le> b \<Longrightarrow> dle (Fin 0) (round_double (b / k))" for b
    using assms(1) by (intro round_ge_zero) simp
  have z': "b \<le> 0 \<Longrightarrow> dle (round_double (b / k)) (Fin 0)" for b
    using assms(1) by (intro round_le_zero) (simp add: divide_le_0_iff)
  show ?thesis
    using assms(2) unfolding ordered_def ddiv_pos [OF assms(1)]
    by (cases x; cases y) (auto simp: m z z')
qed

lemma dmul_ordered:
  assumes "0 < c" "ordered x y"
  shows "ordered (dmul x (Fin c)) (dmul y (Fin c))"
proof -
  have m: "a \<le> b \<Longrightarrow> dle (round_double (a * c)) (round_double (b * c))" for a b
    using assms(1) by (intro round_double_mono) (simp add: mult_right_mono)
  have z: "0 \<le> b \<Longrightarrow> dle (Fin 0) (round_double (b * c))" for b
    using assms(1) by (intro round_ge_zero) simp
  have z': "b \<le> 0 \<Longrightarrow> dle (round_double (b * c)) (Fin 0)" for b
    using assms(1) by (intro round_le_zero) (simp add: mult_le_0_iff)
  show ?thesis
    using assms(2) unfolding ordered_def dmul_pos [OF assms(1)]
    by (cases x; cases y) (auto simp: m z z')
qed

lemma Math_min_ordered:
  assumes "ordered x y"
  shows "ordered (Math_min x (Fin 1)) (Math_min y (Fin 1))"
  using assms unfolding ordered_def
  by (cases x; cases y) (auto simp: Math_min_def dlt_def)

lemma Math_min_le_1: "x \<noteq> NaN \<Longrightarrow> dle (Math_min x (Fin 1)) (Fin 1)"
  by (cases x) (auto simp: Math_min_def dlt_def)

lemma dadd_ordered_left:
  assumes "ordered x y" "x \<noteq> PInf" "y \<noteq> PInf" "c \<noteq> PInf"
  shows "ordered (dadd x c) (dadd y c)"
proof -
  have m: "a \<le> b \<Longrightarrow> dle (round_double (a + d)) (round_double (b + d))" for a b d
    by (intro round_double_mono) simp
  show ?thesis
    using assms unfolding ordered_def
    by (cases x; cases y; cases c)
       (auto simp: dadd_def m round_ge_zero round_le_zero intro!: round_double_mono)
qed

lemma dadd_ordered_right:
  assumes "ordered x y" "x \<noteq> PInf" "y \<noteq> PInf" "c \<noteq> PInf"
  shows "ordered (dadd c x) (dadd c y)"
proof -
  have m: "a \<le> b \<Longrightarrow> dle (round_double (d + a)) (round_double (d + b))" for a b d
    by (intro round_double_mono) simp
  show ?thesis
    using assms unfolding ordered_def
    by (cases x; cases y; cases c)
       (auto simp: dadd_def m round_ge_zero round_le_zero intro!: round_double_mono)
qed

section \<open>Values of the literals\<close>

lemma lit_0: "lit 0 = Fin 0"
  by code_simp
lemma lit_1: "lit 1 = Fin 1"
  by code_simp
lemma lit_600: "lit 600 = Fin 600"
  by code_simp
lemma lit_1000: "lit 1000 = Fin 1000"
  by code_simp
lemma lit_01: "lit (1 / 10) = Fin (3602879701896397 / 36028797018963968)"
  by code_simp
lemma lit_015: "lit (3 / 20) = Fin (5404319552844595 / 36028797018963968)"
  by code_simp
lemma lit_02: "lit (1 / 5) = Fin (3602879701896397 / 18014398509481984)"
  by code_simp
lemma lit_025: "lit (1 / 4) = Fin (1 / 4)"
  by code_simp
lemma lit_03: "lit (3 / 10) = Fin (5404319552844595 / 18014398509481984)"
  by code_simp
lemma lit_035: "lit (7 / 20) = Fin (3152519739159347 / 9007199254740992)"
  by code_simp
lemma lit_04: "lit (2 / 5) = Fin (3602879701896397 / 9007199254740992)"
  by code_simp
lemma lit_07: "lit (7 / 10) = Fin (3152519739159347 / 4503599627370496)"
  by code_simp

lemmas lit_values = lit_0 lit_1 lit_600 lit_1000 lit_01 lit_015 lit_02 lit_025 lit_03 lit_035
  lit_04 lit_07

lemma round_lit: "lit q = Fin r \<Longrightarrow> round_double r = Fin r"
  unfolding lit_def by (rule round_double_idem)

lemmas round_1 = round_lit [OF lit_1]
lemmas round_01 = round_lit [OF lit_01]
lemmas round_03 = round_lit [OF lit_03]

section \<open>The terms of the score\<close>

lemma component_ordered:
  assumes "0 < k" "ordered x y"
  shows "ordered (component k x) (component k y)"
  unfolding component_def lit_03
  by (intro dmul_ordered Math_min_ordered ddiv_ordered assms) simp

lemma ordered_NaN_iff: "ordered x y \<Longrightarrow> x = NaN \<longleftrightarrow> y = NaN"
  by (auto simp: ordered_def)

lemma ordered_dle: "ordered x y \<Longrightarrow> y \<noteq> NaN \<Longrightarrow> dle x y"
  by (auto simp: ordered_def)

lemma component_bound:
  assumes "0 < k"
  shows "component k x = NaN \<or> dle (component k x) (lit (3 / 10))"
proof (cases "ddiv x (Fin k) = NaN")
  case True
  then show ?thesis by (simp add: component_def Math_min_def dmul_def)
next
  case False
  then have "ordered (Math_min (ddiv x (Fin k)) (Fin 1)) (Fin 1)"
    by (simp add: ordered_def Math_min_le_1)
  then have "ordered (component k x) (dmul (Fin 1) (lit (3 / 10)))"
    unfolding component_def lit_03 by (intro dmul_ordered) simp_all
  moreover have "dmul (Fin 1) (lit (3 / 10)) = lit (3 / 10)"
    by (simp add: lit_03 dmul_pos round_03)
  ultimately show ?thesis by (auto simp: ordered_def lit_03)
qed

lemma component_not_PInf: "0 < k \<Longrightarrow> component k x \<noteq> PInf"
  using component_bound [of k x] by (auto simp: lit_03)

lemma component_const:
  assumes "0 < k" "dle (Fin k) x"
  shows "component k x = lit (3 / 10)"
proof -
  have "dle (Fin 1) (ddiv x (Fin k))"
  proof (cases x)
    case (Fin q)
    with assms have "1 \<le> q / k" by simp
    then have "dle (round_double 1) (round_double (q / k))" by (rule round_double_mono)
    then show ?thesis using assms(1) Fin by (simp add: ddiv_pos round_1)
  qed (use assms in \<open>auto simp: ddiv_pos\<close>)
  then have "Math_min (ddiv x (Fin k)) (Fin 1) = Fin 1"
    by (cases "ddiv x (Fin k)") (auto simp: Math_min_def dlt_def)
  then show ?thesis by (simp add: component_def lit_03 dmul_pos round_03)
qed

lemma issue_term_cases:
  "(\<exists>t. issue_term k = Member t) \<or>
   (\<exists>w. issue_term k = Num (Fin w) \<and> round_double w = Fin w \<and> 1 / 16 \<le> w \<and> w \<le> 1 / 2)"
proof (cases "map_of issueTypeWeights k")
  case (Some v)
  then have "(k, v) \<in> set issueTypeWeights" by (rule map_of_SomeD)
  then have "v \<in> {lit (2 / 5), lit (1 / 10), lit (1 / 5), lit (3 / 10), lit (7 / 20), lit (1 / 4), lit (3 / 20)}"
    by (auto simp: issueTypeWeights_def)
  then have "\<exists>w. v = Fin w \<and> round_double w = Fin w \<and> 1 / 16 \<le> w \<and> w \<le> 1 / 2"
    using round_lit [OF lit_04] round_lit [OF lit_01] round_lit [OF lit_02] round_lit [OF lit_03]
      round_lit [OF lit_035] round_lit [OF lit_025] round_lit [OF lit_015]
    by (auto simp: lit_values)
  then show ?thesis using Some by (auto simp: issue_term_def get_prop_def js_or_def)
next
  case None
  show ?thesis
  proof (cases "map_of Object_prototype k")
    case inherited: (Some m)
    then have "(k, m) \<in> set Object_prototype" by (rule map_of_SomeD)
    then have "\<exists>t. m = Member t" by (auto simp: Object_prototype_def)
    then show ?thesis using None inherited by (auto simp: issue_term_def get_prop_def js_or_def)
  next
    case absent: None
    with None have "issue_term k = Num (lit (1 / 10))"
      by (simp add: issue_term_def get_prop_def js_or_def)
    then show ?thesis using round_01
      by (intro disjI2 exI [of _ "3602879701896397 / 36028797018963968"]) (simp add: lit_01)
  qed
qed

lemma bounded_not_PInf: "bounded x a \<Longrightarrow> x \<noteq> PInf"
  by (auto simp: bounded_def)

lemma dadd_bounded:
  assumes "bounded x a" "bounded y b" "a + b \<le> c" "round_double c = Fin c"
  shows "bounded (dadd x y) c"
proof -
  have m: "p \<le> c \<Longrightarrow> dle (round_double p) (Fin c)" for p
    using round_double_mono [of p c] assms(4) by simp
  show ?thesis
    using assms(1-3) unfolding bounded_def
    by (cases x; cases y) (auto simp: dadd_def intro!: m)
qed

lemma component_bounded: "0 < k \<Longrightarrow> bounded (component k x) (5404319552844595 / 18014398509481984)"
  using component_bound [of k x] by (simp add: bounded_def lit_03)

lemma first_sum_bounded: "bounded (first_sum x) (5404319552844595 / 18014398509481984)"
  unfolding first_sum_def
  by (rule dadd_bounded [OF _ component_bounded _ round_03, where a = 0]) (simp_all add: bounded_def)

lemma second_sum_bounded:
  assumes "w \<le> 1 / 2"
  shows "bounded (second_sum w x) 1"
  unfolding second_sum_def
  by (rule dadd_bounded [OF first_sum_bounded _ _ round_1, where b = w])
     (use assms in \<open>simp_all add: bounded_def\<close>)

lemma first_sum_ordered: "ordered x y \<Longrightarrow> ordered (first_sum x) (first_sum y)"
  unfolding first_sum_def
  by (intro dadd_ordered_right component_ordered component_not_PInf) simp_all

lemma second_sum_ordered: "ordered x y \<Longrightarrow> ordered (second_sum w x) (second_sum w y)"
  unfolding second_sum_def
  by (intro dadd_ordered_left first_sum_ordered bounded_not_PInf [OF first_sum_bounded]) simp_all

lemma js_plus_Num [simp]: "js_plus (Num a) (Num b) = Num (dadd a b)"
  by (simp add: js_plus_def)

lemma js_plus_textual: "is_textual a \<Longrightarrow> is_textual (js_plus a b)"
  by (simp add: js_plus_def)

lemma js_plus_Member: "is_textual (js_plus a (Member t))"
  by (simp add: js_plus_def)

lemma to_number_textual: "is_textual a \<Longrightarrow> to_number a = NaN"
  by (cases a) simp_all

lemma score_before_status_eq:
  "score_before_status f =
     js_plus (js_plus (js_plus (Num (Fin 0)) (Num (component 600 (wait_time f))))
                      (issue_term (issue_type f)))
             (Num (component 1000 (charge f)))"
  by (simp add: score_before_status_def Let_def component_def issue_term_def
      lit_0 lit_1 lit_600 lit_1000)

lemma predict_inherited:
  assumes "issue_term (issue_type f) = Member t"
  shows "predictRiskScore f = NaN"
proof -
  have "is_textual (score_before_status f)"
    unfolding score_before_status_eq assms by (intro js_plus_textual js_plus_Member)
  then have "is_textual (score_after_status f)"
    by (simp add: score_after_status_def Let_def js_plus_textual)
  then show ?thesis by (simp add: predictRiskScore_def to_number_textual Math_min_def)
qed

lemma predict_numeric:
  assumes "issue_term (issue_type f) = Num (Fin w)"
  shows "predictRiskScore f = numeric_score w (wait_time f) (charge f) (status f)"
  by (simp add: predictRiskScore_def score_after_status_def score_before_status_eq assms
      numeric_score_def status_sum_def second_sum_def first_sum_def lit_1 Let_def)

lemma dadd_ordered_left_fin:
  assumes "ordered x y" "is_fin c"
  shows "ordered (dadd x c) (dadd y c)"
proof -
  have m: "a \<le> b \<Longrightarrow> dle (round_double (a + d)) (round_double (b + d))" for a b d
    by (intro round_double_mono) simp
  show ?thesis
    using assms unfolding ordered_def
    by (cases x; cases y; cases c)
       (auto simp: dadd_def m round_ge_zero round_le_zero intro!: round_double_mono)
qed

lemma status_sum_ordered: "ordered x y \<Longrightarrow> ordered (status_sum s x) (status_sum s y)"
  by (simp add: status_sum_def dadd_ordered_left_fin lit_01 lit_03)

lemma numeric_score_ordered_wait:
  assumes "w \<le> 1 / 2" "ordered x y"
  shows "ordered (numeric_score w x c s) (numeric_score w y c s)"
  unfolding numeric_score_def
  by (intro Math_min_ordered status_sum_ordered dadd_ordered_left second_sum_ordered assms
      bounded_not_PInf [OF second_sum_bounded] component_not_PInf) simp

lemma numeric_score_ordered_charge:
  assumes "w \<le> 1 / 2" "ordered c d"
  shows "ordered (numeric_score w x c s) (numeric_score w x d s)"
  unfolding numeric_score_def
  by (intro Math_min_ordered status_sum_ordered dadd_ordered_right component_ordered assms
      bounded_not_PInf [OF second_sum_bounded] component_not_PInf) simp_all

lemma predict_ordered_wait:
  assumes "dle x y"
  shows "ordered (predictRiskScore \<lparr>wait_time = x, issue_type = k, charge = c, status = s\<rparr>)
                 (predictRiskScore \<lparr>wait_time = y, issue_type = k, charge = c, status = s\<rparr>)"
  using issue_term_cases [of k]
proof (elim disjE exE conjE)
  fix t assume "issue_term k = Member t"
  then show ?thesis by (simp add: predict_inherited ordered_def)
next
  fix w assume w: "issue_term k = Num (Fin w)" "w \<le> 1 / 2"
  have "ordered x y" using assms by (simp add: ordered_def)
  from numeric_score_ordered_wait [OF w(2) this] show ?thesis
    by (simp add: predict_numeric w(1))
qed

lemma predict_ordered_charge:
  assumes "dle c d"
  shows "ordered (predictRiskScore \<lparr>wait_time = x, issue_type = k, charge = c, status = s\<rparr>)
                 (predictRiskScore \<lparr>wait_time = x, issue_type = k, charge = d, status = s\<rparr>)"
  using issue_term_cases [of k]
proof (elim disjE exE conjE)
  fix t assume "issue_term k = Member t"
  then show ?thesis by (simp add: predict_inherited ordered_def)
next
  fix w assume w: "issue_term k = Num (Fin w)" "w \<le> 1 / 2"
  have "ordered c d" using assms by (simp add: ordered_def)
  from numeric_score_ordered_charge [OF w(2) this] show ?thesis
    by (simp add: predict_numeric w(1))
qed

lemma predict_const_wait:
  assumes "dle (Fin 600) x" "dle (Fin 600) y"
  shows "predictRiskScore \<lparr>wait_time = x, issue_type = k, charge = c, status = s\<rparr>
       = predictRiskScore \<lparr>wait_time = y, issue_type = k, charge = c, status = s\<rparr>"
  using assms
  by (simp add: predictRiskScore_def score_after_status_def score_before_status_eq
      component_const Let_def)

lemma predict_const_charge:
  assumes "dle (Fin 1000) c" "dle (Fin 1000) d"
  shows "predictRiskScore \<lparr>wait_time = x, issue_type = k, charge = c, status = s\<rparr>
       = predictRiskScore \<lparr>wait_time = x, issue_type = k, charge = d, status = s\<rparr>"
  using assms
  by (simp add: predictRiskScore_def score_after_status_def score_before_status_eq
      component_const Let_def)

section \<open>Representable values\<close>

lemma representable_round: "representable (round_double q)"
  unfolding representable_def
  by (cases "round_double q") (simp_all add: round_double_idem)

lemma representable_simps [simp]:
  "representable NaN" "representable PInf" "representable NInf" "representable NZero"
  "representable (Fin 0)"
  by (simp_all add: representable_def)

lemma representable_dadd: "representable (dadd x y)"
  by (simp add: dadd_def representable_round)

lemma representable_dmul: "representable (dmul x y)"
  by (simp add: dmul_def representable_round)

lemma representable_component: "representable (component k x)"
  by (simp add: component_def representable_dmul)

lemma representable_grid: "representable x \<Longrightarrow> on_grid (fval x)"
  by (cases x) (auto simp: representable_def intro: on_grid_round)

lemma dadd_NZero:
  assumes "representable x" "representable y" "dadd x y = NZero"
  shows "x = NZero \<and> y = NZero"
proof (rule ccontr)
  assume n: "\<not> (x = NZero \<and> y = NZero)"
  with assms(3) have "round_double (fval x + fval y) = NZero"
    by (auto simp: dadd_def split: if_splits)
  moreover have "on_grid (fval x + fval y)"
    by (intro on_grid_add representable_grid assms)
  ultimately show False using round_double_grid_not_NZero by blast
qed

lemma dadd_zero_right:
  assumes "representable b" "b \<noteq> NZero"
  shows "dadd b (Fin 0) = b"
  using assms by (cases b) (simp_all add: dadd_def representable_def)

lemma dadd_zero_left:
  assumes "representable b" "b \<noteq> NZero"
  shows "dadd (Fin 0) b = b"
  using assms by (cases b) (simp_all add: dadd_def representable_def)

lemma ordered_dadd_nonneg:
  assumes "representable b" "0 \<le> c"
  shows "ordered b (dadd b (Fin c))"
proof (cases b)
  case (Fin r)
  with assms have "round_double r = Fin r" by (simp add: representable_def)
  moreover have "dle (round_double r) (round_double (r + c))"
    using assms(2) by (intro round_double_mono) simp
  ultimately show ?thesis using Fin by (simp add: ordered_def dadd_def)
qed (use assms in \<open>simp_all add: ordered_def dadd_def round_ge_zero\<close>)

lemma dadd_ordered_right_fin:
  assumes "a \<le> b"
  shows "ordered (dadd c (Fin a)) (dadd c (Fin b))"
  using assms by (cases c) (auto simp: ordered_def dadd_def intro!: round_double_mono)

lemma first_sum_not_NZero: "first_sum x \<noteq> NZero"
  unfolding first_sum_def
  using dadd_NZero [of "Fin 0" "component 600 x"] by (auto simp: representable_component)

lemma second_sum_not_NZero:
  assumes "round_double w = Fin w"
  shows "second_sum w x \<noteq> NZero"
proof
  assume "second_sum w x = NZero"
  then have "dadd (first_sum x) (Fin w) = NZero" by (simp add: second_sum_def)
  moreover have "representable (first_sum x)" by (simp add: first_sum_def representable_dadd)
  moreover have "representable (Fin w)" using assms by (simp add: representable_def)
  ultimately have "Fin w = NZero" using dadd_NZero by blast
  then show False by simp
qed

lemma base_not_NZero:
  assumes "round_double w = Fin w"
  shows "dadd (second_sum w x) (component 1000 c) \<noteq> NZero"
proof
  assume "dadd (second_sum w x) (component 1000 c) = NZero"
  moreover have "representable (second_sum w x)" by (simp add: second_sum_def representable_dadd)
  ultimately have "second_sum w x = NZero"
    using dadd_NZero representable_component by blast
  then show False using second_sum_not_NZero [OF assms] by simp
qed

section \<open>The strings that arise\<close>

lemma js_plus_bracketed: "bracketed a \<Longrightarrow> bracketed b \<Longrightarrow> bracketed (js_plus a b)"
  by (cases a; cases b) (auto simp: js_plus_def)

lemma get_prop_bracketed: "bracketed (get_prop issueTypeWeights k)"
proof (cases "map_of issueTypeWeights k")
  case (Some v)
  then show ?thesis by (simp add: get_prop_def)
next
  case None
  show ?thesis
  proof (cases "map_of Object_prototype k")
    case inherited: (Some m)
    then have "(k, m) \<in> set Object_prototype" by (rule map_of_SomeD)
    then have "bracketed m" by (auto simp: Object_prototype_def)
    then show ?thesis using None inherited by (simp add: get_prop_def)
  next
    case absent: None
    then show ?thesis using None by (simp add: get_prop_def)
  qed
qed

lemma issue_term_bracketed: "bracketed (issue_term k)"
  using get_prop_bracketed [of k] by (simp add: issue_term_def js_or_def)

lemma score_after_status_bracketed: "bracketed (score_after_status f)"
  by (simp add: score_after_status_def score_before_status_eq Let_def
      js_plus_bracketed issue_term_bracketed)

section \<open>Inherited names and the numeric path\<close>

lemma inherited_not_own: "inherited_name k \<Longrightarrow> map_of issueTypeWeights k = None"
  unfolding inherited_name_def Object_prototype_def issueTypeWeights_def
  by (elim disjE | simp)+

lemma inherited_lookup: "inherited_name k \<longleftrightarrow> map_of Object_prototype k \<noteq> None"
  by (simp add: inherited_name_def map_of_eq_None_iff)

lemma issue_term_inherited:
  assumes "inherited_name k"
  shows "\<exists>t. issue_term k = Member t"
proof -
  from assms obtain m where m: "map_of Object_prototype k = Some m"
    by (auto simp: inherited_lookup)
  then have "(k, m) \<in> set Object_prototype" by (rule map_of_SomeD)
  then have "\<exists>t. m = Member t" by (auto simp: Object_prototype_def)
  then show ?thesis using m inherited_not_own [OF assms]
    by (auto simp: issue_term_def get_prop_def js_or_def)
qed

lemma spec_weight_cases:
  "\<exists>w. spec_weight k = Fin w \<and> round_double w = Fin w
       \<and> 3602879701896397 / 36028797018963968 \<le> w \<and> w \<le> 1 / 2"
proof (cases "map_of issueTypeWeights k")
  case (Some v)
  then have "(k, v) \<in> set issueTypeWeights" by (rule map_of_SomeD)
  then have "v \<in> {lit (2 / 5), lit (1 / 10), lit (1 / 5), lit (3 / 10), lit (7 / 20), lit (1 / 4), lit (3 / 20)}"
    by (auto simp: issueTypeWeights_def)
  then have "\<exists>w. v = Fin w \<and> round_double w = Fin w
       \<and> 3602879701896397 / 36028797018963968 \<le> w \<and> w \<le> 1 / 2"
    using round_lit [OF lit_04] round_lit [OF lit_01] round_lit [OF lit_02] round_lit [OF lit_03]
      round_lit [OF lit_035] round_lit [OF lit_025] round_lit [OF lit_015]
    by (auto simp: lit_values)
  then show ?thesis using Some by (simp add: spec_weight_def)
next
  case None
  then have "spec_weight k = lit (1 / 10)" by (simp add: spec_weight_def)
  then show ?thesis using round_01
    by (intro exI [of _ "3602879701896397 / 36028797018963968"]) (simp add: lit_01)
qed

lemma issue_term_numeric:
  assumes "\<not> inherited_name k"
  shows "issue_term k = Num (spec_weight k)"
proof (cases "map_of issueTypeWeights k")
  case (Some v)
  moreover from spec_weight_cases [of k] Some have "truthy (Num v)"
    by (auto simp: spec_weight_def)
  ultimately show ?thesis by (simp add: issue_term_def get_prop_def js_or_def spec_weight_def)
next
  case None
  then show ?thesis using assms
    by (auto simp: issue_term_def get_prop_def js_or_def spec_weight_def inherited_lookup)
qed

lemma predict_inherited_name: "inherited_name (issue_type f) \<Longrightarrow> predictRiskScore f = NaN"
  using issue_term_inherited [of "issue_type f"] predict_inherited [of f] by blast

text \<open>Outside the inherited names the function is the formula of the specification.\<close>

lemma dadd_zero_first:
  assumes "representable x"
  shows "dadd (dadd (Fin 0) x) (Fin w) = dadd x (Fin w)"
proof (cases "x = NZero")
  case True
  then show ?thesis by (simp add: dadd_def)
next
  case False
  with assms show ?thesis by (simp add: dadd_zero_left)
qed

lemma predict_reference:
  assumes "\<not> inherited_name (issue_type f)"
  shows "predictRiskScore f = reference_score f"
proof -
  from spec_weight_cases [of "issue_type f"] obtain w
    where w: "spec_weight (issue_type f) = Fin w" "round_double w = Fin w" by blast
  define b where "b = dadd (second_sum w (wait_time f)) (component 1000 (charge f))"
  have t: "issue_term (issue_type f) = Num (Fin w)"
    using issue_term_numeric [OF assms] w by simp
  have s: "second_sum w (wait_time f) = dadd (component 600 (wait_time f)) (Fin w)"
    by (simp add: second_sum_def first_sum_def dadd_zero_first representable_component)
  have z: "dadd b (Fin 0) = b"
    unfolding b_def by (intro dadd_zero_right representable_dadd base_not_NZero w)
  have "status_sum (status f) b = dadd b (spec_status (status f))"
    by (simp add: status_sum_def spec_status_def z lit_0)
  then have "predictRiskScore f = Math_min (dadd b (spec_status (status f))) (Fin 1)"
    by (simp add: predict_numeric [OF t] numeric_score_def b_def)
  then show ?thesis
    by (simp add: reference_score_def formula_with_weight_def w b_def s component_def
        lit_600 lit_1000 lit_1)
qed

lemma predict_default_weight:
  assumes "map_of issueTypeWeights (issue_type f) = None" "\<not> inherited_name (issue_type f)"
  shows "predictRiskScore f = formula_with_weight (lit (1 / 10)) f"
  using predict_reference [OF assms(2)] assms(1)
  by (simp add: reference_score_def spec_weight_def)

lemma component_NaN_iff: "0 < k \<Longrightarrow> component k x = NaN \<longleftrightarrow> x = NaN"
  by (cases x) (auto simp: component_def lit_03 ddiv_pos dmul_pos Math_min_def split: double.splits)

lemma dadd_NaN_iff:
  "x \<noteq> PInf \<Longrightarrow> y \<noteq> PInf \<Longrightarrow> dadd x y = NaN \<longleftrightarrow> x = NaN \<or> y = NaN"
  by (auto simp: dadd_def)

lemma Math_min_NaN_iff: "Math_min x (Fin 1) = NaN \<longleftrightarrow> x = NaN"
  by (auto simp: Math_min_def)

lemma numeric_score_NaN_iff:
  assumes "w \<le> 1 / 2"
  shows "numeric_score w x c s = NaN \<longleftrightarrow> x = NaN \<or> c = NaN"
proof -
  have 1: "first_sum x = NaN \<longleftrightarrow> x = NaN"
    by (simp add: first_sum_def dadd_NaN_iff component_not_PInf component_NaN_iff)
  have 2: "second_sum w x = NaN \<longleftrightarrow> x = NaN"
    by (simp add: second_sum_def dadd_NaN_iff bounded_not_PInf [OF first_sum_bounded] 1)
  have 3: "dadd (second_sum w x) (component 1000 c) = NaN \<longleftrightarrow> x = NaN \<or> c = NaN"
    by (simp add: dadd_NaN_iff bounded_not_PInf [OF second_sum_bounded [OF assms]]
        component_not_PInf component_NaN_iff 2)
  have 4: "status_sum s b = NaN \<longleftrightarrow> b = NaN" for b
    by (cases b) (auto simp: status_sum_def dadd_def lit_01 lit_03)
  show ?thesis by (simp add: numeric_score_def Math_min_NaN_iff 4 3)
qed

text \<open>The score is NaN exactly for an inherited name or a NaN input.\<close>

lemma predict_NaN_iff:
  "predictRiskScore f = NaN \<longleftrightarrow>
     inherited_name (issue_type f) \<or> wait_time f = NaN \<or> charge f = NaN"
proof (cases "inherited_name (issue_type f)")
  case True
  then show ?thesis by (simp add: predict_inherited_name)
next
  case False
  from spec_weight_cases [of "issue_type f"] obtain w
    where w: "spec_weight (issue_type f) = Fin w" "w \<le> 1 / 2" by blast
  have "issue_term (issue_type f) = Num (Fin w)"
    using issue_term_numeric [OF False] w by simp
  then show ?thesis using False
    by (simp add: predict_numeric numeric_score_NaN_iff [OF w(2)])
qed

lemma component_zero: "0 < k \<Longrightarrow> component k (Fin 0) = Fin 0"
  by (simp add: component_def lit_03 ddiv_pos dmul_pos Math_min_def dlt_def)

lemma Math_min_ge:
  assumes "dle (Fin a) x" "a \<le> 1"
  shows "dle (Fin a) (Math_min x (Fin 1))"
  using assms by (cases x) (auto simp: Math_min_def dlt_def)

text \<open>Outside the inherited names, non-negative inputs give a score between 0.1 and 1.\<close>

lemma predict_range:
  assumes "\<not> inherited_name k" "dle (Fin 0) x" "dle (Fin 0) c"
  shows "dle (lit (1 / 10)) (predictRiskScore \<lparr>wait_time = x, issue_type = k, charge = c, status = s\<rparr>)"
    and "dle (predictRiskScore \<lparr>wait_time = x, issue_type = k, charge = c, status = s\<rparr>) (lit 1)"
proof -
  let ?F = "\<lambda>x c. predictRiskScore \<lparr>wait_time = x, issue_type = k, charge = c, status = s\<rparr>"
  define a :: rat where "a = 3602879701896397 / 36028797018963968"
  from spec_weight_cases [of k] obtain w
    where w: "spec_weight k = Fin w" "round_double w = Fin w" "a \<le> w" "w \<le> 1 / 2"
    unfolding a_def by blast
  have t: "issue_term k = Num (Fin w)"
    using issue_term_numeric [OF assms(1)] w by simp
  have ra: "round_double a = Fin a" unfolding a_def by (rule round_01)
  have m: "a \<le> p \<Longrightarrow> dle (Fin a) (round_double p)" for p
    using round_double_mono [of a p] ra by simp
  have "dle (Fin a) (status_sum s (Fin w))"
    using w(3) by (auto simp: status_sum_def lit_01 lit_03 dadd_def intro!: m)
  then have "dle (Fin a) (Math_min (status_sum s (Fin w)) (Fin 1))"
    by (rule Math_min_ge) (simp add: a_def)
  moreover have "?F (Fin 0) (Fin 0) = numeric_score w (Fin 0) (Fin 0) s"
    using predict_numeric [of "\<lparr>wait_time = Fin 0, issue_type = k, charge = Fin 0, status = s\<rparr>" w] t
    by simp
  then have "?F (Fin 0) (Fin 0) = Math_min (status_sum s (Fin w)) (Fin 1)"
    by (simp add: numeric_score_def second_sum_def first_sum_def component_zero dadd_def w(2))
  ultimately have 0: "dle (Fin a) (?F (Fin 0) (Fin 0))" by simp
  have "ordered (?F (Fin 0) (Fin 0)) (?F x (Fin 0))"
    using assms(2) by (rule predict_ordered_wait)
  with 0 have 1: "dle (?F (Fin 0) (Fin 0)) (?F x (Fin 0))" by (auto simp: ordered_def)
  have "ordered (?F x (Fin 0)) (?F x c)"
    using assms(3) by (rule predict_ordered_charge)
  with 1 have 2: "dle (?F x (Fin 0)) (?F x c)" by (auto simp: ordered_def)
  from 0 1 2 have "dle (Fin a) (?F x c)" by (blast intro: dle_trans)
  then show "dle (lit (1 / 10)) (?F x c)" by (simp add: lit_01 a_def)
  from 2 have "?F x c \<noteq> NaN" by auto
  then show "dle (?F x c) (lit 1)"
    by (simp add: predictRiskScore_def lit_1 Math_min_le_1 Math_min_NaN_iff)
qed

lemma score_before_status_cases:
  "is_textual (score_before_status f) \<and> predictRiskScore f = NaN
   \<or> (\<exists>b. score_before_status f = Num b \<and> representable b \<and> b \<noteq> NZero)"
  using issue_term_cases [of "issue_type f"]
proof (elim disjE exE conjE)
  fix t assume t: "issue_term (issue_type f) = Member t"
  then have "is_textual (score_before_status f)"
    unfolding score_before_status_eq by (simp add: js_plus_textual js_plus_Member)
  then show ?thesis using predict_inherited [OF t] by simp
next
  fix w assume w: "issue_term (issue_type f) = Num (Fin w)" "round_double w = Fin w"
  have "score_before_status f = Num (dadd (second_sum w (wait_time f)) (component 1000 (charge f)))"
    by (simp add: score_before_status_eq w(1) second_sum_def first_sum_def)
  then show ?thesis using base_not_NZero [OF w(2)] representable_dadd by simp
qed

lemma score_before_status_status:
  "score_before_status \<lparr>wait_time = x, issue_type = k, charge = c, status = s\<rparr>
   = score_before_status \<lparr>wait_time = x, issue_type = k, charge = c, status = s'\<rparr>"
  by (simp add: score_before_status_eq)

section \<open>The classification thresholds\<close>



section \<open>Concrete inputs\<close>

text \<open>
  Claim C8. For wait time 300, issue type \<open>Unknown Category\<close>, charge 500 and status
  \<open>Pending\<close> the score is exactly 0.5, which is what \<open>0.5 * 0.3 + 0.1 + 0.5 * 0.3 + 0.1\<close>
  gives in binary64 arithmetic, and a score of 0.5 is classified \<open>Medium\<close> with action
  \<open>Offer Callback\<close>.
\<close>

theorem scenario_unknown_category:
  "predictRiskScore \<lparr>wait_time = lit 300, issue_type = ''Unknown Category'',
                      charge = lit 500, status = ''Pending''\<rparr> = lit (1 / 2)
   \<and> dadd (dadd (dadd (dmul (lit (1 / 2)) (lit (3 / 10))) (lit (1 / 10)))
                 (dmul (lit (1 / 2)) (lit (3 / 10)))) (lit (1 / 10)) = lit (1 / 2)
   \<and> priority (lit (1 / 2)) = ''Medium''
   \<and> predicted_action (lit (1 / 2)) = ''Offer Callback''"
  by code_simp

text \<open>
  Claim C9. The score has no lower clamp and negative inputs are not rejected: there is
  an input with a negative wait time whose score is below 0, and one with a negative
  charge whose score is below 0.
\<close>

theorem negative_input_below_zero:
  "(\<exists>f. dlt (wait_time f) (lit 0) \<and> dlt (predictRiskScore f) (lit 0))
   \<and> (\<exists>f. dlt (charge f) (lit 0) \<and> dlt (predictRiskScore f) (lit 0))"
proof (intro conjI)
  let ?f = "\<lparr>wait_time = lit (- 6000), issue_type = ''Bill Payment Query'',
              charge = lit 0, status = ''Paid''\<rparr>"
  have "dlt (wait_time ?f) (lit 0) \<and> dlt (predictRiskScore ?f) (lit 0)"
    by code_simp
  then show "\<exists>f. dlt (wait_time f) (lit 0) \<and> dlt (predictRiskScore f) (lit 0)" ..
next
  let ?g = "\<lparr>wait_time = lit 0, issue_type = ''Bill Payment Query'',
              charge = lit (- 10000), status = ''Paid''\<rparr>"
  have "dlt (charge ?g) (lit 0) \<and> dlt (predictRiskScore ?g) (lit 0)"
    by code_simp
  then show "\<exists>f. dlt (charge f) (lit 0) \<and> dlt (predictRiskScore f) (lit 0)" ..
qed

section \<open>Monotonicity in the wait time and the charge\<close>

text \<open>
  Outside the inherited names: with issue type, charge and status fixed, the score does
  not decrease as the wait time grows from 0 to 600, provided the charge is not NaN; for
  an inherited name or a NaN charge both scores are NaN. For two wait times of 600 or
  more the scores are identical.
\<close>

lemma wait_time_monotone:
  "(dle (lit 0) w1 \<and> dle w1 w2 \<and> dle w2 (lit 600) \<longrightarrow>
      (dle (predictRiskScore \<lparr>wait_time = w1, issue_type = k, charge = c, status = s\<rparr>)
           (predictRiskScore \<lparr>wait_time = w2, issue_type = k, charge = c, status = s\<rparr>)
       \<or> predictRiskScore \<lparr>wait_time = w1, issue_type = k, charge = c, status = s\<rparr> = NaN
         \<and> predictRiskScore \<lparr>wait_time = w2, issue_type = k, charge = c, status = s\<rparr> = NaN)
      \<and> (\<not> inherited_name k \<and> c \<noteq> NaN \<longrightarrow>
           dle (predictRiskScore \<lparr>wait_time = w1, issue_type = k, charge = c, status = s\<rparr>)
               (predictRiskScore \<lparr>wait_time = w2, issue_type = k, charge = c, status = s\<rparr>)))
   \<and> (dle (lit 600) w1 \<and> dle (lit 600) w2 \<longrightarrow>
        predictRiskScore \<lparr>wait_time = w1, issue_type = k, charge = c, status = s\<rparr>
      = predictRiskScore \<lparr>wait_time = w2, issue_type = k, charge = c, status = s\<rparr>)"
proof (intro conjI impI)
  assume "dle (lit 600) w1 \<and> dle (lit 600) w2"
  then show "predictRiskScore \<lparr>wait_time = w1, issue_type = k, charge = c, status = s\<rparr>
      = predictRiskScore \<lparr>wait_time = w2, issue_type = k, charge = c, status = s\<rparr>"
    by (simp add: lit_600 predict_const_wait)
next
  assume h: "dle (lit 0) w1 \<and> dle w1 w2 \<and> dle w2 (lit 600)"
  then have o: "ordered (predictRiskScore \<lparr>wait_time = w1, issue_type = k, charge = c, status = s\<rparr>)
                 (predictRiskScore \<lparr>wait_time = w2, issue_type = k, charge = c, status = s\<rparr>)"
    by (intro predict_ordered_wait) simp
  then show "dle (predictRiskScore \<lparr>wait_time = w1, issue_type = k, charge = c, status = s\<rparr>)
           (predictRiskScore \<lparr>wait_time = w2, issue_type = k, charge = c, status = s\<rparr>)
       \<or> predictRiskScore \<lparr>wait_time = w1, issue_type = k, charge = c, status = s\<rparr> = NaN
         \<and> predictRiskScore \<lparr>wait_time = w2, issue_type = k, charge = c, status = s\<rparr> = NaN"
    by (simp add: ordered_def)
  assume "\<not> inherited_name k \<and> c \<noteq> NaN"
  moreover from h have "w1 \<noteq> NaN" by auto
  ultimately have "predictRiskScore \<lparr>wait_time = w1, issue_type = k, charge = c, status = s\<rparr> \<noteq> NaN"
    by (simp add: predict_NaN_iff)
  with o show "dle (predictRiskScore \<lparr>wait_time = w1, issue_type = k, charge = c, status = s\<rparr>)
               (predictRiskScore \<lparr>wait_time = w2, issue_type = k, charge = c, status = s\<rparr>)"
    by (simp add: ordered_def)
qed

text \<open>
  The same for the charge and its ceiling of 1000, provided the wait time is not NaN.
\<close>

lemma charge_monotone:
  "(dle (lit 0) c1 \<and> dle c1 c2 \<and> dle c2 (lit 1000) \<longrightarrow>
      (dle (predictRiskScore \<lparr>wait_time = w, issue_type = k, charge = c1, status = s\<rparr>)
           (predictRiskScore \<lparr>wait_time = w, issue_type = k, charge = c2, status = s\<rparr>)
       \<or> predictRiskScore \<lparr>wait_time = w, issue_type = k, charge = c1, status = s\<rparr> = NaN
         \<and> predictRiskScore \<lparr>wait_time = w, issue_type = k, charge = c2, status = s\<rparr> = NaN)
      \<and> (\<not> inherited_name k \<and> w \<noteq> NaN \<longrightarrow>
           dle (predictRiskScore \<lparr>wait_time = w, issue_type = k, charge = c1, status = s\<rparr>)
               (predictRiskScore \<lparr>wait_time = w, issue_type = k, charge = c2, status = s\<rparr>)))
   \<and> (dle (lit 1000) c1 \<and> dle (lit 1000) c2 \<longrightarrow>
        predictRiskScore \<lparr>wait_time = w, issue_type = k, charge = c1, status = s\<rparr>
      = predictRiskScore \<lparr>wait_time = w, issue_type = k, charge = c2, status = s\<rparr>)"
proof (intro conjI impI)
  assume "dle (lit 1000) c1 \<and> dle (lit 1000) c2"
  then show "predictRiskScore \<lparr>wait_time = w, issue_type = k, charge = c1, status = s\<rparr>
      = predictRiskScore \<lparr>wait_time = w, issue_type = k, charge = c2, status = s\<rparr>"
    by (simp add: lit_1000 predict_const_charge)
next
  assume h: "dle (lit 0) c1 \<and> dle c1 c2 \<and> dle c2 (lit 1000)"
  then have o: "ordered (predictRiskScore \<lparr>wait_time = w, issue_type = k, charge = c1, status = s\<rparr>)
                 (predictRiskScore \<lparr>wait_time = w, issue_type = k, charge = c2, status = s\<rparr>)"
    by (intro predict_ordered_charge) simp
  then show "dle (predictRiskScore \<lparr>wait_time = w, issue_type = k, charge = c1, status = s\<rparr>)
           (predictRiskScore \<lparr>wait_time = w, issue_type = k, charge = c2, status = s\<rparr>)
       \<or> predictRiskScore \<lparr>wait_time = w, issue_type = k, charge = c1, status = s\<rparr> = NaN
         \<and> predictRiskScore \<lparr>wait_time = w, issue_type = k, charge = c2, status = s\<rparr> = NaN"
    by (simp add: ordered_def)
  assume "\<not> inherited_name k \<and> w \<noteq> NaN"
  moreover from h have "c1 \<noteq> NaN" by auto
  ultimately have "predictRiskScore \<lparr>wait_time = w, issue_type = k, charge = c1, status = s\<rparr> \<noteq> NaN"
    by (simp add: predict_NaN_iff)
  with o show "dle (predictRiskScore \<lparr>wait_time = w, issue_type = k, charge = c1, status = s\<rparr>)
               (predictRiskScore \<lparr>wait_time = w, issue_type = k, charge = c2, status = s\<rparr>)"
    by (simp add: ordered_def)
qed

section \<open>The status branch\<close>

text \<open>
  Outside the inherited names and for inputs that are not NaN: the score for \<open>Denied\<close>
  is at least the score for \<open>Pending\<close>, which is at least the score for any other
  status; otherwise the scores are all NaN. The scores are the clamped sums of the
  accumulator before the status branch and 0.3, 0.1 and 0.0 respectively, so two statuses
  outside \<open>Denied\<close> and \<open>Pending\<close> give equal scores.
\<close>

lemma status_contributions:
  assumes "s \<noteq> ''Denied''" "s \<noteq> ''Pending''" "s' \<noteq> ''Denied''" "s' \<noteq> ''Pending''"
  shows
    "(dge (predictRiskScore \<lparr>wait_time = x, issue_type = k, charge = c, status = ''Denied''\<rparr>)
          (predictRiskScore \<lparr>wait_time = x, issue_type = k, charge = c, status = ''Pending''\<rparr>)
      \<or> predictRiskScore \<lparr>wait_time = x, issue_type = k, charge = c, status = ''Denied''\<rparr> = NaN
        \<and> predictRiskScore \<lparr>wait_time = x, issue_type = k, charge = c, status = ''Pending''\<rparr> = NaN)
   \<and> (dge (predictRiskScore \<lparr>wait_time = x, issue_type = k, charge = c, status = ''Pending''\<rparr>)
          (predictRiskScore \<lparr>wait_time = x, issue_type = k, charge = c, status = s\<rparr>)
      \<or> predictRiskScore \<lparr>wait_time = x, issue_type = k, charge = c, status = ''Pending''\<rparr> = NaN
        \<and> predictRiskScore \<lparr>wait_time = x, issue_type = k, charge = c, status = s\<rparr> = NaN)
   \<and> (\<not> inherited_name k \<and> x \<noteq> NaN \<and> c \<noteq> NaN \<longrightarrow>
        dge (predictRiskScore \<lparr>wait_time = x, issue_type = k, charge = c, status = ''Denied''\<rparr>)
            (predictRiskScore \<lparr>wait_time = x, issue_type = k, charge = c, status = ''Pending''\<rparr>)
      \<and> dge (predictRiskScore \<lparr>wait_time = x, issue_type = k, charge = c, status = ''Pending''\<rparr>)
            (predictRiskScore \<lparr>wait_time = x, issue_type = k, charge = c, status = s\<rparr>))
   \<and> predictRiskScore \<lparr>wait_time = x, issue_type = k, charge = c, status = ''Denied''\<rparr>
      = Math_min (to_number (js_plus
          (score_before_status \<lparr>wait_time = x, issue_type = k, charge = c, status = s\<rparr>)
          (Num (lit (3 / 10))))) (lit 1)
   \<and> predictRiskScore \<lparr>wait_time = x, issue_type = k, charge = c, status = ''Pending''\<rparr>
      = Math_min (to_number (js_plus
          (score_before_status \<lparr>wait_time = x, issue_type = k, charge = c, status = s\<rparr>)
          (Num (lit (1 / 10))))) (lit 1)
   \<and> predictRiskScore \<lparr>wait_time = x, issue_type = k, charge = c, status = s\<rparr>
      = Math_min (to_number (js_plus
          (score_before_status \<lparr>wait_time = x, issue_type = k, charge = c, status = s\<rparr>)
          (Num (lit 0)))) (lit 1)
   \<and> predictRiskScore \<lparr>wait_time = x, issue_type = k, charge = c, status = s'\<rparr>
      = predictRiskScore \<lparr>wait_time = x, issue_type = k, charge = c, status = s\<rparr>"
proof -
  let ?f = "\<lambda>s. \<lparr>wait_time = x, issue_type = k, charge = c, status = s\<rparr>"
  define B where "B = score_before_status (?f s)"
  have B: "score_before_status (?f t) = B" for t
    unfolding B_def by (rule score_before_status_status)
  have D: "predictRiskScore (?f ''Denied'') = Math_min (to_number (js_plus B (Num (lit (3 / 10))))) (lit 1)"
    by (simp add: predictRiskScore_def score_after_status_def B)
  have P: "predictRiskScore (?f ''Pending'') = Math_min (to_number (js_plus B (Num (lit (1 / 10))))) (lit 1)"
    by (simp add: predictRiskScore_def score_after_status_def B)
  have O: "predictRiskScore (?f t) = Math_min (to_number B) (lit 1)"
    if "t \<noteq> ''Denied''" "t \<noteq> ''Pending''" for t
    using that by (simp add: predictRiskScore_def score_after_status_def B)
  have Z: "to_number (js_plus B (Num (lit 0))) = to_number B"
    using score_before_status_cases [of "?f s"] unfolding B
  proof (elim disjE exE conjE)
    assume "is_textual B"
    then show ?thesis by (simp add: js_plus_textual to_number_textual)
  next
    fix b assume "B = Num b" "representable b" "b \<noteq> NZero"
    then show ?thesis by (simp add: lit_0 dadd_zero_right)
  qed
  define vO where "vO = Math_min (to_number B) (lit 1)"
  define vP where "vP = Math_min (to_number (js_plus B (Num (lit (1 / 10))))) (lit 1)"
  define vD where "vD = Math_min (to_number (js_plus B (Num (lit (3 / 10))))) (lit 1)"
  have ord: "ordered vO vP \<and> ordered vP vD"
    using score_before_status_cases [of "?f s"] unfolding B
  proof (elim disjE exE conjE)
    assume "is_textual B"
    then show ?thesis
      by (simp add: vO_def vP_def vD_def js_plus_textual to_number_textual Math_min_def ordered_def)
  next
    fix b assume b: "B = Num b" "representable b"
    have "ordered b (dadd b (lit (1 / 10)))"
      unfolding lit_01 using b(2) by (intro ordered_dadd_nonneg) simp_all
    moreover have "ordered (dadd b (lit (1 / 10))) (dadd b (lit (3 / 10)))"
      unfolding lit_01 lit_03 by (intro dadd_ordered_right_fin) simp
    ultimately show ?thesis
      by (simp add: vO_def vP_def vD_def b(1) lit_1 Math_min_ordered)
  qed
  have 1: "dge vD vP \<or> vD = NaN \<and> vP = NaN"
    using ord by (auto simp: ordered_def dge_def)
  have 2: "dge vP vO \<or> vP = NaN \<and> vO = NaN"
    using ord by (auto simp: ordered_def dge_def)
  have 3: "vO = Math_min (to_number (js_plus B (Num (lit 0)))) (lit 1)"
    by (simp only: vO_def Z)
  note r = D [folded vD_def] P [folded vP_def] O [OF assms(1,2), folded vO_def]
    O [OF assms(3,4), folded vO_def]
  have 4: "\<not> inherited_name k \<and> x \<noteq> NaN \<and> c \<noteq> NaN \<longrightarrow> dge vD vP \<and> dge vP vO"
  proof
    assume "\<not> inherited_name k \<and> x \<noteq> NaN \<and> c \<noteq> NaN"
    then have "predictRiskScore (?f ''Pending'') \<noteq> NaN" "predictRiskScore (?f s) \<noteq> NaN"
      by (simp_all add: predict_NaN_iff)
    then have "vP \<noteq> NaN" "vO \<noteq> NaN" unfolding r by simp_all
    with 1 2 show "dge vD vP \<and> dge vP vO" by simp
  qed
  show ?thesis
    unfolding B r
  proof (intro conjI)
    show "vD = Math_min (to_number (js_plus B (Num (lit (3 / 10))))) (lit 1)" by (rule vD_def)
    show "vP = Math_min (to_number (js_plus B (Num (lit (1 / 10))))) (lit 1)" by (rule vP_def)
  qed (use 1 2 3 4 in simp_all)
qed

section \<open>Issue types that name an inherited member\<close>

text \<open>
  \<^verbatim>\<open>issueTypeWeights\<close> is an object literal, so a read such as
  \<^verbatim>\<open>issueTypeWeights["constructor"]\<close> finds the member inherited from
  \<^verbatim>\<open>Object.prototype\<close>. The member is truthy, so \<^verbatim>\<open>|| 0.1\<close> keeps it; adding it to the
  numeric accumulator concatenates strings; every later \<^verbatim>\<open>+=\<close> appends to the string; and
  \<^verbatim>\<open>Math.min\<close> of that string and 1 is NaN. The default weight is missed for these names.
\<close>

text \<open>
  Claim C1, evaluated at wait time 300, issue type \<open>constructor\<close>, charge 500, status
  \<open>Pending\<close>: the function returns NaN, where the reference formula (with the default
  weight 0.1 for a string outside the table) gives 0.5.
\<close>

theorem inherited_key_differs_from_formula:
  "predictRiskScore \<lparr>wait_time = lit 300, issue_type = ''constructor'',
                      charge = lit 500, status = ''Pending''\<rparr> = NaN
   \<and> reference_score \<lparr>wait_time = lit 300, issue_type = ''constructor'',
                       charge = lit 500, status = ''Pending''\<rparr> = lit (1 / 2)"
  by code_simp

text \<open>
  Claim C2, evaluated at wait time 0, issue type \<open>toString\<close>, charge 0, status \<open>Paid\<close>:
  both numeric inputs are non-negative and the result is NaN, which is neither at least
  0 nor at most 1.
\<close>

theorem inherited_key_outside_unit_interval:
  "dge (lit 0) (lit 0)
   \<and> predictRiskScore \<lparr>wait_time = lit 0, issue_type = ''toString'',
                        charge = lit 0, status = ''Paid''\<rparr> = NaN
   \<and> \<not> dle (lit 0) (predictRiskScore \<lparr>wait_time = lit 0, issue_type = ''toString'',
                                        charge = lit 0, status = ''Paid''\<rparr>)
   \<and> \<not> dle (predictRiskScore \<lparr>wait_time = lit 0, issue_type = ''toString'',
                                charge = lit 0, status = ''Paid''\<rparr>) (lit 1)"
  by code_simp

text \<open>
  Claim C7, evaluated at wait time 300, issue type \<open>valueOf\<close>, charge 500, status
  \<open>Submitted\<close>: \<open>valueOf\<close> is not a key of the table, the function returns NaN, and the
  formula with the explicit weight 0.1 gives a number.
\<close>

theorem inherited_key_not_default_weight:
  "map_of issueTypeWeights ''valueOf'' = None
   \<and> predictRiskScore \<lparr>wait_time = lit 300, issue_type = ''valueOf'',
                        charge = lit 500, status = ''Submitted''\<rparr> = NaN
   \<and> formula_with_weight (lit (1 / 10)) \<lparr>wait_time = lit 300, issue_type = ''valueOf'',
                        charge = lit 500, status = ''Submitted''\<rparr> = lit (4 / 10)"
  by code_simp

text \<open>
  Claim C10, evaluated at wait time 600, issue type \<open>hasOwnProperty\<close>, charge 1000,
  status \<open>Denied\<close>: both numeric inputs are non-negative and the result, NaN, is not at
  least 0.1.
\<close>

theorem inherited_key_not_above_floor:
  "dge (lit 600) (lit 0) \<and> dge (lit 1000) (lit 0)
   \<and> \<not> dge (predictRiskScore \<lparr>wait_time = lit 600, issue_type = ''hasOwnProperty'',
                                charge = lit 1000, status = ''Denied''\<rparr>) (lit (1 / 10))"
  by code_simp

text \<open>
  Claim C4, evaluated at issue type \<open>constructor\<close>, charge 500, status \<open>Pending\<close> and the
  wait times 100 and 200, both between 0 and 600: the score is NaN at both, so the score
  at 100 is not at most the score at 200.
\<close>

theorem inherited_key_wait_time_not_monotone:
  "dle (lit 0) (lit 100) \<and> dle (lit 100) (lit 200) \<and> dle (lit 200) (lit 600)
   \<and> predictRiskScore \<lparr>wait_time = lit 100, issue_type = ''constructor'',
                         charge = lit 500, status = ''Pending''\<rparr> = NaN
   \<and> predictRiskScore \<lparr>wait_time = lit 200, issue_type = ''constructor'',
                         charge = lit 500, status = ''Pending''\<rparr> = NaN
   \<and> \<not> dle (predictRiskScore \<lparr>wait_time = lit 100, issue_type = ''constructor'',
                                charge = lit 500, status = ''Pending''\<rparr>)
              (predictRiskScore \<lparr>wait_time = lit 200, issue_type = ''constructor'',
                                charge = lit 500, status = ''Pending''\<rparr>)"
  by code_simp

text \<open>
  Claim C5, evaluated at wait time 120, issue type \<open>toString\<close>, status \<open>Pending\<close> and the
  charges 50 and 500, both between 0 and 1000: the score is NaN at both, so the score at
  50 is not at most the score at 500.
\<close>

theorem inherited_key_charge_not_monotone:
  "dle (lit 0) (lit 50) \<and> dle (lit 50) (lit 500) \<and> dle (lit 500) (lit 1000)
   \<and> predictRiskScore \<lparr>wait_time = lit 120, issue_type = ''toString'',
                         charge = lit 50, status = ''Pending''\<rparr> = NaN
   \<and> predictRiskScore \<lparr>wait_time = lit 120, issue_type = ''toString'',
                         charge = lit 500, status = ''Pending''\<rparr> = NaN
   \<and> \<not> dle (predictRiskScore \<lparr>wait_time = lit 120, issue_type = ''toString'',
                                charge = lit 50, status = ''Pending''\<rparr>)
              (predictRiskScore \<lparr>wait_time = lit 120, issue_type = ''toString'',
                                charge = lit 500, status = ''Pending''\<rparr>)"
  by code_simp

text \<open>
  Claim C6, evaluated at wait time 300, issue type \<open>valueOf\<close>, charge 500 and the
  statuses \<open>Denied\<close>, \<open>Pending\<close> and \<open>Submitted\<close>: all three scores are NaN, so the score
  for \<open>Denied\<close> is not at least the score for \<open>Pending\<close>, and that one is not at least the
  score for \<open>Submitted\<close>; the accumulator before the status branch is a string, to which
  0.3 and 0.1 are appended as text.
\<close>

theorem inherited_key_status_not_ordered:
  "predictRiskScore \<lparr>wait_time = lit 300, issue_type = ''valueOf'',
                      charge = lit 500, status = ''Denied''\<rparr> = NaN
   \<and> predictRiskScore \<lparr>wait_time = lit 300, issue_type = ''valueOf'',
                         charge = lit 500, status = ''Pending''\<rparr> = NaN
   \<and> predictRiskScore \<lparr>wait_time = lit 300, issue_type = ''valueOf'',
                         charge = lit 500, status = ''Submitted''\<rparr> = NaN
   \<and> \<not> dge (predictRiskScore \<lparr>wait_time = lit 300, issue_type = ''valueOf'',
                                charge = lit 500, status = ''Denied''\<rparr>)
              (predictRiskScore \<lparr>wait_time = lit 300, issue_type = ''valueOf'',
                                charge = lit 500, status = ''Pending''\<rparr>)
   \<and> \<not> dge (predictRiskScore \<lparr>wait_time = lit 300, issue_type = ''valueOf'',
                                charge = lit 500, status = ''Pending''\<rparr>)
              (predictRiskScore \<lparr>wait_time = lit 300, issue_type = ''valueOf'',
                                charge = lit 500, status = ''Submitted''\<rparr>)
   \<and> is_textual (score_before_status \<lparr>wait_time = lit 300, issue_type = ''valueOf'',
                                          charge = lit 500, status = ''Submitted''\<rparr>)"
  by code_simp

end
